theory Spec2Isabelle
  imports Main "HOL-Library.Word" "HOL-Library.Log_Nat"
begin

section \<open>Data model\<close>

text \<open>
  Go's \<open>int64\<close> is a 64-bit word read in two's complement; \<open>int\<close> is the same on the
  64-bit target the Dockerfile builds for, so \<open>int64(apiKey.RateLimitRequests)\<close> is the
  identity. \<open>time.Duration\<close> is an \<open>int64\<close> count of nanoseconds, and
  \<open>time.Second\<close> is the constant \<open>1000000000\<close>. An instant (\<open>time.Time\<close>) is a number
  of nanoseconds on the process clock; adding a duration to an instant adds its signed
  value.
\<close>

type_synonym int64 = "64 word"
type_synonym Duration = "64 word"
type_synonym Time = int

definition Second :: Duration where
  "Second = 1000000000"

text \<open>\<open>database.APIKey\<close> (internal/database/models.go).\<close>

record APIKey =
  ID :: string
  KeyHash :: string
  Name :: string
  RateLimitRequests :: int64
  RateLimitWindowSeconds :: int64
  IsActive :: bool
  CreatedAt :: Time
  UpdatedAt :: Time

text \<open>\<open>config.RateLimitConfig\<close>.\<close>

record RateLimitConfig =
  DefaultRequests :: int64
  DefaultWindow :: Duration

text \<open>\<open>services.RateLimitResult\<close>.\<close>

record RateLimitResult =
  Allowed :: bool
  Remaining :: int64
  ResetTime :: Time
  Limit :: int64

section \<open>The counter store (package redis)\<close>

text \<open>
  The Redis server as the client sees it: whether the connection works, and for each key
  its integer value with an optional expiry instant. The keys of this program are
  written by \<open>INCR\<close> only, so every stored value is an integer. A key whose expiry
  instant has been reached is gone (Redis expires lazily: the key is treated as absent
  by the next command that looks at it).
\<close>

record entry =
  val :: int64
  expire_at :: "Time option"

record Client =
  reachable :: bool
  cells :: "string \<Rightarrow> entry option"

datatype redis_error =
  ConnectionError   \<comment> \<open>the pipeline or the command could not be sent\<close>
| Nil               \<comment> \<open>\<open>redis.Nil\<close>: \<open>GET\<close> on an absent key\<close>
| Overflow          \<comment> \<open>\<open>INCR\<close> on the largest 64-bit value\<close>

definition live :: "Client \<Rightarrow> string \<Rightarrow> Time \<Rightarrow> entry option" where
  "live c key now =
     (case cells c key of
        None \<Rightarrow> None
      | Some e \<Rightarrow>
          (case expire_at e of
             None \<Rightarrow> Some e
           | Some d \<Rightarrow> if now < d then Some e else None))"

text \<open>
  \<open>INCR key\<close>: an absent key counts as 0 and is created without an expiry; an existing
  key keeps its expiry.
\<close>

definition INCR :: "Client \<Rightarrow> string \<Rightarrow> Time \<Rightarrow> (redis_error + int64) \<times> Client" where
  "INCR c key now =
     (case live c key now of
        None \<Rightarrow> (Inr 1, c\<lparr>cells := (cells c)(key \<mapsto> \<lparr>val = 1, expire_at = None\<rparr>)\<rparr>)
      | Some e \<Rightarrow>
          if val e = 9223372036854775807 then (Inl Overflow, c)
          else (Inr (val e + 1), c\<lparr>cells := (cells c)(key \<mapsto> e\<lparr>val := val e + 1\<rparr>)\<rparr>))"

text \<open>
  \<open>EXPIRE key seconds\<close>: on an existing key the expiry instant becomes now plus the
  timeout, whatever it was before; a timeout that is not positive deletes the key; an
  absent key is left absent. The client sends the duration in whole seconds, at least
  one for a positive duration.
\<close>

definition quot :: "int \<Rightarrow> int \<Rightarrow> int" where
  \<comment> \<open>Go's \<open>/\<close> on integers truncates toward zero\<close>
  "quot a b = sgn a * sgn b * (\<bar>a\<bar> div \<bar>b\<bar>)"

definition formatSec :: "Duration \<Rightarrow> int" where
  "formatSec dur =
     (if 0 < sint dur \<and> sint dur < 1000000000 then 1
      else quot (sint dur) 1000000000)"

definition EXPIRE :: "Client \<Rightarrow> string \<Rightarrow> Duration \<Rightarrow> Time \<Rightarrow> Client" where
  "EXPIRE c key expiration now =
     (case live c key now of
        None \<Rightarrow> c
      | Some e \<Rightarrow>
          if formatSec expiration \<le> 0 then c\<lparr>cells := (cells c)(key := None)\<rparr>
          else c\<lparr>cells := (cells c)(key \<mapsto>
                 e\<lparr>expire_at := Some (now + formatSec expiration * 1000000000)\<rparr>)\<rparr>)"

text \<open>
  \<open>Client.IncrementRateLimit\<close>: a pipeline of \<open>INCR\<close> and \<open>EXPIRE\<close>. Both commands
  are queued and sent together; \<open>Exec\<close> reports the first failed command, and the
  expiry command runs whether or not the key existed before.
\<close>

definition IncrementRateLimit ::
    "Client \<Rightarrow> string \<Rightarrow> Duration \<Rightarrow> Time \<Rightarrow> (redis_error + int64) \<times> Client" where
  "IncrementRateLimit c key window now =
     (if \<not> reachable c then (Inl ConnectionError, c)
      else
        (case INCR c key now of
           (incr, c1) \<Rightarrow>
             (let c2 = EXPIRE c1 key window now
              in (case incr of
                    Inl err \<Rightarrow> (Inl err, c2)
                  | Inr v \<Rightarrow> (Inr v, c2)))))"

text \<open>\<open>Client.GetRateLimitCount\<close>: \<open>GET key\<close> read as an \<open>int64\<close>.\<close>

definition GetRateLimitCount :: "Client \<Rightarrow> string \<Rightarrow> Time \<Rightarrow> redis_error + int64" where
  "GetRateLimitCount c key now =
     (if \<not> reachable c then Inl ConnectionError
      else
        (case live c key now of
           None \<Rightarrow> Inl Nil
         | Some e \<Rightarrow> Inr (val e)))"

section \<open>The rate limit service\<close>

datatype service_error =
  CheckFailed redis_error   \<comment> \<open>"failed to check rate limit: %w"\<close>

text \<open>
  \<open>RateLimitService.CheckRateLimit\<close>. The service holds its configuration and the
  client; the model passes both, with the instant of the call, and returns the store
  as the call leaves it.
\<close>

definition CheckRateLimit ::
    "RateLimitConfig \<Rightarrow> Client \<Rightarrow> Time \<Rightarrow> APIKey \<Rightarrow> (service_error + RateLimitResult) \<times> Client" where
  "CheckRateLimit config redisClient now apiKey =
     (let redisKey = ''rate_limit:'' @ ID apiKey;
          limit = RateLimitRequests apiKey;
          window = RateLimitWindowSeconds apiKey * Second;
          limit = (if limit \<le>s 0 then DefaultRequests config else limit);
          window = (if window \<le>s 0 then DefaultWindow config else window)
      in (case IncrementRateLimit redisClient redisKey window now of
            (Inl err, c') \<Rightarrow> (Inl (CheckFailed err), c')
          | (Inr currentCount, c') \<Rightarrow>
              (let allowed = (currentCount \<le>s limit);
                   remaining = limit - currentCount;
                   remaining = (if remaining <s 0 then 0 else remaining);
                   resetTime = now + sint window
               in (Inr \<lparr>Allowed = allowed, Remaining = remaining,
                         ResetTime = resetTime, Limit = limit\<rparr>, c'))))"

text \<open>
  \<open>RateLimitService.GetRateLimitStatus\<close>. It reads the counter without writing, so the
  store is not returned. The Go function has an error result; the model keeps it, so
  that never failing is a property and not a matter of the type.
\<close>

definition GetRateLimitStatus ::
    "RateLimitConfig \<Rightarrow> Client \<Rightarrow> Time \<Rightarrow> APIKey \<Rightarrow> service_error + RateLimitResult" where
  "GetRateLimitStatus config redisClient now apiKey =
     (let redisKey = ''rate_limit:'' @ ID apiKey;
          currentCount =
            (case GetRateLimitCount redisClient redisKey now of
               Inl err \<Rightarrow> 0
             | Inr v \<Rightarrow> v);
          limit = RateLimitRequests apiKey;
          window = RateLimitWindowSeconds apiKey * Second;
          limit = (if limit \<le>s 0 then DefaultRequests config else limit);
          window = (if window \<le>s 0 then DefaultWindow config else window);
          allowed = (currentCount <s limit);
          remaining = limit - currentCount;
          remaining = (if remaining <s 0 then 0 else remaining);
          resetTime = now + sint window
      in Inr \<lparr>Allowed = allowed, Remaining = remaining,
               ResetTime = resetTime, Limit = limit\<rparr>)"

text \<open>
  Names for what both functions compute inline before they look at the counter: the
  key of the counter, the limit and the window in force (lines 34-46 and 73-91 of the
  service).
\<close>

definition counter_key :: "APIKey \<Rightarrow> string" where
  "counter_key apiKey = ''rate_limit:'' @ ID apiKey"

definition limit_in_force :: "RateLimitConfig \<Rightarrow> APIKey \<Rightarrow> int64" where
  "limit_in_force config apiKey =
     (if RateLimitRequests apiKey \<le>s 0 then DefaultRequests config
      else RateLimitRequests apiKey)"

definition window_in_force :: "RateLimitConfig \<Rightarrow> APIKey \<Rightarrow> Duration" where
  "window_in_force config apiKey =
     (if RateLimitWindowSeconds apiKey * Second \<le>s 0 then DefaultWindow config
      else RateLimitWindowSeconds apiKey * Second)"

section \<open>The API key service\<close>

text \<open>
  The table \<open>api_keys\<close> as the list of its rows, behind a connection that may fail.
  \<open>crypto/sha256\<close> is the standard library's; the digest function is a parameter
  \<open>Sum256\<close> of everything that hashes, from the bytes of the key to the bytes of the
  digest. \<open>fmt.Sprintf("%x", hash)\<close> writes every byte as two lowercase hexadecimal
  digits.
\<close>

datatype db_error = DriverError

record DB =
  available :: bool
  api_keys :: "APIKey list"

datatype apikey_error =
  ErrInvalidAPIKey              \<comment> \<open>"invalid API key"\<close>
| ErrValidate db_error          \<comment> \<open>"failed to validate API key: %w"\<close>
| ErrDeactivate db_error        \<comment> \<open>"failed to deactivate API key: %w"\<close>
| ErrNotFound                   \<comment> \<open>"API key not found"\<close>

definition hex_digit :: "nat \<Rightarrow> char" where
  "hex_digit n = ''0123456789abcdef'' ! (n mod 16)"

definition hex_byte :: "8 word \<Rightarrow> string" where
  "hex_byte b = [hex_digit (unat b div 16), hex_digit (unat b mod 16)]"

definition hashAPIKey :: "(string \<Rightarrow> 8 word list) \<Rightarrow> string \<Rightarrow> string" where
  "hashAPIKey Sum256 apiKey = (let hash = Sum256 apiKey in concat (map hex_byte hash))"

text \<open>
  \<open>APIKeyService.ValidateAPIKey\<close>: the row selected by
  \<open>WHERE key_hash = $1 AND is_active = true\<close>; \<open>sql.ErrNoRows\<close> when there is none,
  any other failure of the query wrapped.
\<close>

definition ValidateAPIKey ::
    "(string \<Rightarrow> 8 word list) \<Rightarrow> DB \<Rightarrow> string \<Rightarrow> apikey_error + APIKey" where
  "ValidateAPIKey Sum256 db apiKey =
     (let keyHash = hashAPIKey Sum256 apiKey
      in if \<not> available db then Inl (ErrValidate DriverError)
         else
           (case find (\<lambda>r. KeyHash r = keyHash \<and> IsActive r = True) (api_keys db) of
              None \<Rightarrow> Inl ErrInvalidAPIKey
            | Some apiKeyRecord \<Rightarrow> Inr apiKeyRecord))"

text \<open>
  \<open>APIKeyService.DeactivateAPIKey\<close>:
  \<open>UPDATE api_keys SET is_active = false, updated_at = NOW() WHERE key_hash = $1\<close>.
  PostgreSQL counts every row the \<open>WHERE\<close> clause selects as affected, whether or not
  the update changes it. The driver's \<open>RowsAffected\<close> does not fail.
\<close>

definition DeactivateAPIKey ::
    "(string \<Rightarrow> 8 word list) \<Rightarrow> DB \<Rightarrow> Time \<Rightarrow> string \<Rightarrow> (apikey_error + unit) \<times> DB" where
  "DeactivateAPIKey Sum256 db now apiKey =
     (let keyHash = hashAPIKey Sum256 apiKey
      in if \<not> available db then (Inl (ErrDeactivate DriverError), db)
         else
           (let rowsAffected = length (filter (\<lambda>r. KeyHash r = keyHash) (api_keys db));
                db' = db\<lparr>api_keys :=
                        map (\<lambda>r. if KeyHash r = keyHash
                                  then r\<lparr>IsActive := False, UpdatedAt := now\<rparr> else r)
                            (api_keys db)\<rparr>
            in if rowsAffected = 0 then (Inl ErrNotFound, db')
               else (Inr (), db')))"

section \<open>The admission middleware\<close>

text \<open>
  A request as the middleware reads it: the path and two headers (\<open>GetHeader\<close> gives
  the empty string for a missing header). What the middleware does with it: either it
  calls \<open>c.Next()\<close>, with or without the record stored under \<open>"api_key"\<close>, or it
  writes a status and a JSON body and aborts. The three rate limit headers are set
  once the check has answered.
\<close>

record Request =
  Path :: string
  X_API_Key :: string
  Authorization :: string

datatype body =
  APIKeyRequired           \<comment> \<open>"API key required"\<close>
| InvalidAPIKey            \<comment> \<open>"Invalid API key"\<close>
| RateLimitCheckFailed     \<comment> \<open>"Rate limit check failed"\<close>
| RateLimitExceeded int    \<comment> \<open>"Rate limit exceeded", with \<open>retry_after\<close>\<close>

datatype outcome =
  Next "APIKey option"
| Abort nat body

record RateLimitHeaders =
  X_RateLimit_Limit :: int64
  X_RateLimit_Remaining :: int64
  X_RateLimit_Reset :: Time

definition HasPrefix :: "string \<Rightarrow> string \<Rightarrow> bool" where
  "HasPrefix s p = (take (length p) s = p)"

definition TrimPrefix :: "string \<Rightarrow> string \<Rightarrow> string" where
  "TrimPrefix s p = (if HasPrefix s p then drop (length p) s else s)"

text \<open>
  \<open>float64\<close> arithmetic. A \<open>float64\<close> is the rational number it stands for, and every
  operation gives the exact result rounded to the nearest \<open>float64\<close>, ties to the even
  significand (IEEE 754 binary64, the rounding Go uses). \<open>binade x\<close> is the exponent
  \<open>e\<close> with \<open>2 ^ e \<le> x < 2 ^ (e + 1)\<close>, and the \<open>float64\<close> values of that binade are the
  multiples of \<open>2 ^ (e - 52)\<close>. The magnitudes that arise from a \<open>Duration\<close> lie between
  \<open>1e-9\<close> and \<open>2 ^ 34\<close>, where neither overflow nor subnormal numbers occur, so the
  exponent is not bounded.
\<close>

definition rne :: "rat \<Rightarrow> int" where
  \<comment> \<open>the nearest integer, a tie going to the even one\<close>
  "rne x =
     (let n = \<lfloor>x\<rfloor>; r = x - of_int n
      in if r < 1 / 2 then n else if 1 / 2 < r then n + 1
         else if even n then n else n + 1)"

definition binade :: "rat \<Rightarrow> int" where
  "binade x = (if 1 \<le> x then bitlen \<lfloor>x\<rfloor> - 1 else - bitlen (\<lceil>1 / x\<rceil> - 1))"

definition pow2 :: "int \<Rightarrow> rat" where
  "pow2 i = (if 0 \<le> i then 2 ^ nat i else 1 / 2 ^ nat (- i))"

definition float64 :: "rat \<Rightarrow> rat" where
  "float64 x =
     (if x = 0 then 0
      else (let u = pow2 (binade \<bar>x\<bar> - 52) in of_int (rne (x / u)) * u))"

text \<open>
  \<open>Duration.Seconds\<close>:
  \<open>sec := d / Second; nsec := d % Second; return float64(sec) + float64(nsec)/1e9\<close>,
  with Go's \<open>%\<close>, whose result has the sign of the dividend. The conversion \<open>int(f)\<close> of
  a \<open>float64\<close> drops the fraction, toward zero.
\<close>

definition rem :: "int \<Rightarrow> int \<Rightarrow> int" where
  "rem a b = a - b * quot a b"

definition seconds_of_ns :: "int \<Rightarrow> rat" where
  "seconds_of_ns d =
     (let sec = quot d 1000000000;
          nsec = rem d 1000000000
      in float64 (float64 (of_int sec) + float64 (float64 (of_int nsec) / 1000000000)))"

definition Seconds :: "Duration \<Rightarrow> rat" where
  "Seconds d = seconds_of_ns (sint d)"

definition int_of_float64 :: "rat \<Rightarrow> int" where
  "int_of_float64 f = (if 0 \<le> f then \<lfloor>f\<rfloor> else \<lceil>f\<rceil>)"

text \<open>
  \<open>time.Until(t)\<close> is \<open>t.Sub(time.Now())\<close>, a duration that saturates at the ends of
  \<open>int64\<close>.
\<close>

definition Sub :: "Time \<Rightarrow> Time \<Rightarrow> Duration" where
  "Sub t u =
     (let d = t - u
      in if d < - 9223372036854775808 then word_of_int (- 9223372036854775808)
         else if 9223372036854775807 < d then word_of_int 9223372036854775807
         else word_of_int d)"

definition Until :: "Time \<Rightarrow> Time \<Rightarrow> Duration" where
  "Until t now = Sub t now"

text \<open>
  \<open>middleware.RateLimit\<close>. \<open>now\<close> is the clock when the service computes the reset
  time, \<open>now'\<close> the clock when the middleware computes \<open>retry_after\<close>. The result is
  the outcome, the headers set, and the counter store as the request leaves it.
\<close>

definition RateLimit ::
    "(string \<Rightarrow> 8 word list) \<Rightarrow> DB \<Rightarrow> RateLimitConfig \<Rightarrow> Client \<Rightarrow> Time \<Rightarrow> Time \<Rightarrow> Request
       \<Rightarrow> outcome \<times> RateLimitHeaders option \<times> Client" where
  "RateLimit Sum256 db config redisClient now now' req =
     (if Path req = ''/health'' \<or> Path req = ''/metrics'' then (Next None, None, redisClient)
      else
        (let apiKey = X_API_Key req;
             apiKey =
               (if apiKey = []
                then (let authHeader = Authorization req
                      in if authHeader \<noteq> [] \<and> HasPrefix authHeader ''Bearer ''
                         then TrimPrefix authHeader ''Bearer '' else apiKey)
                else apiKey)
         in if apiKey = [] then (Abort 401 APIKeyRequired, None, redisClient)
            else
              (case ValidateAPIKey Sum256 db apiKey of
                 Inl err \<Rightarrow> (Abort 401 InvalidAPIKey, None, redisClient)
               | Inr apiKeyRecord \<Rightarrow>
                   (case CheckRateLimit config redisClient now apiKeyRecord of
                      (Inl err, c') \<Rightarrow> (Abort 500 RateLimitCheckFailed, None, c')
                    | (Inr rateLimitResult, c') \<Rightarrow>
                        (let headers = Some \<lparr>X_RateLimit_Limit = Limit rateLimitResult,
                                              X_RateLimit_Remaining = Remaining rateLimitResult,
                                              X_RateLimit_Reset = ResetTime rateLimitResult\<rparr>
                         in if \<not> Allowed rateLimitResult
                            then (Abort 429 (RateLimitExceeded
                                    (int_of_float64
                                      (Seconds (Until (ResetTime rateLimitResult) now')))),
                                  headers, c')
                            else (Next (Some apiKeyRecord), headers, c'))))))"

text \<open>
  A name for the credential the middleware extracts inline (lines 140-148): the
  \<open>X-API-Key\<close> header, or else what follows \<open>Bearer \<close> in \<open>Authorization\<close>.
\<close>

definition presented_key :: "Request \<Rightarrow> string" where
  "presented_key req =
     (if X_API_Key req = []
      then (if Authorization req \<noteq> [] \<and> HasPrefix (Authorization req) ''Bearer ''
            then TrimPrefix (Authorization req) ''Bearer '' else X_API_Key req)
      else X_API_Key req)"

section \<open>Concrete inputs\<close>

text \<open>
  The configuration of the service tests (100 requests an hour), a key with a quota of
  its own (5 requests a minute), a key without one, and counter stores: one that holds
  a single counter, an empty one and one that cannot be reached.
\<close>

definition cfg0 :: RateLimitConfig where
  "cfg0 = \<lparr>DefaultRequests = 100, DefaultWindow = 3600000000000\<rparr>"

definition key5 :: APIKey where
  "key5 = \<lparr>ID = ''k5'', KeyHash = ''6b35'', Name = ''five a minute'',
            RateLimitRequests = 5, RateLimitWindowSeconds = 60, IsActive = True,
            CreatedAt = 0, UpdatedAt = 0\<rparr>"

definition key_unset :: APIKey where
  "key_unset = \<lparr>ID = ''k0'', KeyHash = ''6b30'', Name = ''no quota of its own'',
            RateLimitRequests = 0, RateLimitWindowSeconds = 0, IsActive = True,
            CreatedAt = 0, UpdatedAt = 0\<rparr>"

definition store_with :: "string \<Rightarrow> int64 \<Rightarrow> Time option \<Rightarrow> Client" where
  "store_with key v d =
     \<lparr>reachable = True, cells = Map.empty(key \<mapsto> \<lparr>val = v, expire_at = d\<rparr>)\<rparr>"

definition store_empty :: Client where
  "store_empty = \<lparr>reachable = True, cells = Map.empty\<rparr>"

definition store_down :: Client where
  "store_down = \<lparr>reachable = False, cells = Map.empty\<rparr>"

text \<open>
  For closed examples the digest parameter is instantiated with the bytes of the key
  themselves, so that the token \<open>k5\<close> has the hexadecimal digest \<open>6b35\<close>. The table
  holds the two keys above, a revoked key (token \<open>k9\<close>) and a key of one request a
  second (token \<open>k1\<close>). A second table holds a key of one request a year (token
  \<open>ky\<close>), and a second configuration has the default limit 0.
\<close>

definition bytes_digest :: "string \<Rightarrow> 8 word list" where
  "bytes_digest s = map of_char s"

definition key_revoked :: APIKey where
  "key_revoked = \<lparr>ID = ''k9'', KeyHash = ''6b39'', Name = ''revoked'',
            RateLimitRequests = 5, RateLimitWindowSeconds = 60, IsActive = False,
            CreatedAt = 0, UpdatedAt = 0\<rparr>"

definition key1s :: APIKey where
  "key1s = \<lparr>ID = ''k1'', KeyHash = ''6b31'', Name = ''one a second'',
            RateLimitRequests = 1, RateLimitWindowSeconds = 1, IsActive = True,
            CreatedAt = 0, UpdatedAt = 0\<rparr>"

definition db_demo :: DB where
  "db_demo = \<lparr>available = True, api_keys = [key5, key_unset, key_revoked, key1s]\<rparr>"

definition db_down :: DB where
  "db_down = \<lparr>available = False, api_keys = [key5, key_unset, key_revoked, key1s]\<rparr>"

definition cfg_zero :: RateLimitConfig where
  "cfg_zero = \<lparr>DefaultRequests = 0, DefaultWindow = 3600000000000\<rparr>"

definition key1y :: APIKey where
  "key1y = \<lparr>ID = ''ky'', KeyHash = ''6b79'', Name = ''one a year'',
            RateLimitRequests = 1, RateLimitWindowSeconds = 31536000, IsActive = True,
            CreatedAt = 0, UpdatedAt = 0\<rparr>"

definition db_year :: DB where
  "db_year = \<lparr>available = True, api_keys = [key1y]\<rparr>"

definition req_with :: "string \<Rightarrow> string \<Rightarrow> Request" where
  "req_with path key = \<lparr>Path = path, X_API_Key = key, Authorization = []\<rparr>"

section \<open>Shared lemmas\<close>

lemma CheckRateLimit_unfold:
  "CheckRateLimit config c now k =
     (case IncrementRateLimit c (counter_key k) (window_in_force config k) now of
        (Inl err, c') \<Rightarrow> (Inl (CheckFailed err), c')
      | (Inr n, c') \<Rightarrow>
          (Inr \<lparr>Allowed = (n \<le>s limit_in_force config k),
                 Remaining = (if limit_in_force config k - n <s 0 then 0
                              else limit_in_force config k - n),
                 ResetTime = now + sint (window_in_force config k),
                 Limit = limit_in_force config k\<rparr>, c'))"
  by (simp add: CheckRateLimit_def counter_key_def limit_in_force_def window_in_force_def
      Let_def split: prod.splits sum.splits)

lemma GetRateLimitStatus_unfold:
  "GetRateLimitStatus config c now k =
     (let n = (case GetRateLimitCount c (counter_key k) now of Inl err \<Rightarrow> 0 | Inr v \<Rightarrow> v)
      in Inr \<lparr>Allowed = (n <s limit_in_force config k),
               Remaining = (if limit_in_force config k - n <s 0 then 0
                            else limit_in_force config k - n),
               ResetTime = now + sint (window_in_force config k),
               Limit = limit_in_force config k\<rparr>)"
  by (simp add: GetRateLimitStatus_def counter_key_def limit_in_force_def window_in_force_def
      Let_def)


lemmas store_defs = IncrementRateLimit_def INCR_def EXPIRE_def live_def GetRateLimitCount_def
  formatSec_def quot_def Second_def counter_key_def window_in_force_def limit_in_force_def
  store_with_def store_empty_def store_down_def cfg0_def key5_def key_unset_def
  word_sle_eq word_sless_alt

lemma sint_mul_Second:
  assumes "- 9223372036 \<le> sint (s :: 64 word)" "sint s \<le> 9223372036"
  shows "sint (s * Second) = sint s * 1000000000"
proof -
  have "sint (s * Second) = signed_take_bit 63 (sint s * 1000000000)"
    by (simp add: Second_def sint_word_ariths)
  also have "\<dots> = sint s * 1000000000"
    using assms by (intro signed_take_bit_int_eq_self) simp_all
  finally show ?thesis .
qed

lemma remaining_nonneg:
  "0 \<le> sint (if (l :: 64 word) - n <s 0 then 0 else l - n)"
  by (simp add: word_sless_alt)

lemma remaining_max:
  "sint (if (l :: 64 word) - n <s 0 then 0 else l - n) = max 0 (sint (l - n))"
  by (simp add: word_sless_alt max_def)

lemma sint_sub_exact:
  assumes "- 9223372036854775808 \<le> sint (l :: 64 word) - sint n" "sint l - sint n \<le> 9223372036854775807"
  shows "sint (l - n) = sint l - sint n"
proof -
  have "sint (l - n) = signed_take_bit 63 (sint l - sint n)"
    by (simp add: sint_word_ariths)
  also have "\<dots> = sint l - sint n"
    using assms by (intro signed_take_bit_int_eq_self) simp_all
  finally show ?thesis .
qed

lemma CheckRateLimit_Inr:
  assumes "fst (IncrementRateLimit c (counter_key k) (window_in_force config k) now) = Inr n"
  shows "fst (CheckRateLimit config c now k) =
           Inr \<lparr>Allowed = (n \<le>s limit_in_force config k),
                 Remaining = (if limit_in_force config k - n <s 0 then 0
                              else limit_in_force config k - n),
                 ResetTime = now + sint (window_in_force config k),
                 Limit = limit_in_force config k\<rparr>"
  using assms
  by (cases "IncrementRateLimit c (counter_key k) (window_in_force config k) now")
    (simp add: CheckRateLimit_unfold)

lemma GetRateLimitStatus_Inr:
  assumes "GetRateLimitCount d (counter_key k) now = Inr n"
  shows "GetRateLimitStatus config d now k =
           Inr \<lparr>Allowed = (n <s limit_in_force config k),
                 Remaining = (if limit_in_force config k - n <s 0 then 0
                              else limit_in_force config k - n),
                 ResetTime = now + sint (window_in_force config k),
                 Limit = limit_in_force config k\<rparr>"
  using assms by (simp add: GetRateLimitStatus_unfold)

lemma snapshot_Remaining:
  fixes l n :: "64 word"
  assumes r_def: "r = \<lparr>Allowed = a, Remaining = (if l - n <s 0 then 0 else l - n),
                   ResetTime = t, Limit = l\<rparr>"
  shows "Limit r = l \<and> 0 \<le> sint (Remaining r) \<and>
         sint (Remaining r) = max 0 (sint (Limit r - n)) \<and>
         (- 9223372036854775808 \<le> sint (Limit r) - sint n \<and>
          sint (Limit r) - sint n \<le> 9223372036854775807 \<longrightarrow>
            sint (Remaining r) = max 0 (sint (Limit r) - sint n))"
proof -
  have R: "Remaining r = (if l - n <s 0 then 0 else l - n)" and L: "Limit r = l"
    by (simp_all add: r_def)
  show ?thesis
    unfolding R L using remaining_nonneg [of l n] remaining_max [of l n] sint_sub_exact [of l n]
    by presburger
qed

lemma window_in_force_default:
  assumes "- 9223372036 \<le> sint (RateLimitWindowSeconds k)" "sint (RateLimitWindowSeconds k) \<le> 0"
  shows "window_in_force config k = DefaultWindow config"
  using assms sint_mul_Second [of "RateLimitWindowSeconds k"]
  by (simp add: window_in_force_def word_sle_eq)

lemma window_in_force_own:
  assumes "0 < sint (RateLimitWindowSeconds k)" "sint (RateLimitWindowSeconds k) \<le> 9223372036"
  shows "window_in_force config k = RateLimitWindowSeconds k * Second"
    and "sint (window_in_force config k) = sint (RateLimitWindowSeconds k) * 1000000000"
  using assms sint_mul_Second [of "RateLimitWindowSeconds k"]
  by (simp_all add: window_in_force_def word_sle_eq)

lemma limit_in_force_cases:
  "(sint (RateLimitRequests k) \<le> 0 \<longrightarrow> limit_in_force config k = DefaultRequests config) \<and>
   (0 < sint (RateLimitRequests k) \<longrightarrow> limit_in_force config k = RateLimitRequests k)"
  by (simp add: limit_in_force_def word_sle_eq)

lemma CheckRateLimit_fields:
  assumes "fst (CheckRateLimit config c now k) = Inr r"
  shows "Limit r = limit_in_force config k"
    and "ResetTime r = now + sint (window_in_force config k)"
  using assms by (auto simp: CheckRateLimit_unfold split: prod.splits sum.splits)

lemma GetRateLimitStatus_fields:
  "\<exists>r. GetRateLimitStatus config d now k = Inr r \<and> Limit r = limit_in_force config k \<and>
       ResetTime r = now + sint (window_in_force config k)"
  by (simp add: GetRateLimitStatus_unfold Let_def)

lemma CheckRateLimit_store:
  "snd (CheckRateLimit config c now k) =
   snd (IncrementRateLimit c (counter_key k) (window_in_force config k) now)"
  by (simp add: CheckRateLimit_unfold split: prod.splits sum.splits)

lemmas db_defs = ValidateAPIKey_def DeactivateAPIKey_def hashAPIKey_def hex_byte_def hex_digit_def
  bytes_digest_def db_demo_def db_down_def key5_def key_unset_def key_revoked_def key1s_def
  req_with_def

lemmas mw_defs = RateLimit_def presented_key_def HasPrefix_def TrimPrefix_def Until_def Sub_def
  CheckRateLimit_def

lemma hex_digit_range: "hex_digit n \<in> set ''0123456789abcdef''"
  unfolding hex_digit_def by (rule nth_mem) simp

lemma hashAPIKey_length: "length (hashAPIKey Sum256 apiKey) = 2 * length (Sum256 apiKey)"
  by (simp add: hashAPIKey_def hex_byte_def length_concat comp_def sum_list_triv)

lemma hashAPIKey_chars: "set (hashAPIKey Sum256 apiKey) \<subseteq> set ''0123456789abcdef''"
proof -
  define A where "A = set ''0123456789abcdef''"
  have d: "hex_digit n \<in> A" for n
    unfolding A_def by (rule hex_digit_range)
  have "set (hex_byte b) \<subseteq> A" for b
    by (simp add: hex_byte_def d)
  then have "set (concat (map hex_byte bs)) \<subseteq> A" for bs
    by (induction bs) auto
  then show ?thesis
    unfolding A_def hashAPIKey_def Let_def .
qed

lemma DeactivateAPIKey_unfold:
  "available db \<Longrightarrow>
   DeactivateAPIKey Sum256 db now apiKey =
     (if \<forall>r \<in> set (api_keys db). KeyHash r \<noteq> hashAPIKey Sum256 apiKey then Inl ErrNotFound
      else Inr (),
      db\<lparr>api_keys := map (\<lambda>r. if KeyHash r = hashAPIKey Sum256 apiKey
                                 then r\<lparr>IsActive := False, UpdatedAt := now\<rparr> else r)
                          (api_keys db)\<rparr>)"
  by (auto simp: DeactivateAPIKey_def Let_def filter_empty_conv)

lemma revoked_row:
  assumes "r' = (if KeyHash r = h then r\<lparr>IsActive := False, UpdatedAt := now\<rparr> else r)"
    and "KeyHash r' = h"
  shows "\<not> IsActive r'"
proof (cases "KeyHash r = h")
  case True
  with assms(1) show ?thesis by simp
next
  case False
  with assms(1) have "r' = r" by simp
  with assms(2) False show ?thesis by simp
qed

lemma revoked_rows_inactive:
  "\<forall>r \<in> set (map (\<lambda>r::APIKey. if KeyHash r = h
                                  then r\<lparr>IsActive := False, UpdatedAt := now\<rparr> else r) xs).
     KeyHash r = h \<longrightarrow> \<not> IsActive r"
proof (intro ballI impI)
  fix r'
  assume "r' \<in> set (map (\<lambda>r::APIKey. if KeyHash r = h
                      then r\<lparr>IsActive := False, UpdatedAt := now\<rparr> else r) xs)"
    and h: "KeyHash r' = h"
  then obtain r where
    "r' = (if KeyHash r = h then r\<lparr>IsActive := False, UpdatedAt := now\<rparr> else r)"
    unfolding set_map by (elim imageE)
  then show "\<not> IsActive r'"
    using h by (rule revoked_row)
qed

lemma revoked_rows_hashes:
  "map KeyHash (map (\<lambda>r::APIKey. if KeyHash r = h
                       then r\<lparr>IsActive := False, UpdatedAt := now\<rparr> else r) xs) =
   map KeyHash xs"
  by (induction xs) simp_all

lemma revoked_rows_others:
  "filter (\<lambda>r. KeyHash r \<noteq> h)
     (map (\<lambda>r::APIKey. if KeyHash r = h
             then r\<lparr>IsActive := False, UpdatedAt := now\<rparr> else r) xs) =
   filter (\<lambda>r. KeyHash r \<noteq> h) xs"
  by (induction xs) simp_all

lemma RateLimit_unfold:
  "RateLimit Sum256 db config c now now' req =
     (if Path req = ''/health'' \<or> Path req = ''/metrics'' then (Next None, None, c)
      else if presented_key req = [] then (Abort 401 APIKeyRequired, None, c)
      else
        (case ValidateAPIKey Sum256 db (presented_key req) of
           Inl err \<Rightarrow> (Abort 401 InvalidAPIKey, None, c)
         | Inr k \<Rightarrow>
             (case CheckRateLimit config c now k of
                (Inl err, c') \<Rightarrow> (Abort 500 RateLimitCheckFailed, None, c')
              | (Inr r, c') \<Rightarrow>
                  (if \<not> Allowed r
                   then (Abort 429 (RateLimitExceeded
                           (int_of_float64 (Seconds (Until (ResetTime r) now')))),
                         Some \<lparr>X_RateLimit_Limit = Limit r,
                               X_RateLimit_Remaining = Remaining r,
                               X_RateLimit_Reset = ResetTime r\<rparr>, c')
                   else (Next (Some k),
                         Some \<lparr>X_RateLimit_Limit = Limit r,
                               X_RateLimit_Remaining = Remaining r,
                               X_RateLimit_Reset = ResetTime r\<rparr>, c')))))"
  by (simp add: RateLimit_def presented_key_def Let_def split: sum.splits prod.splits)

lemma CheckRateLimit_Inl:
  assumes "fst (IncrementRateLimit c (counter_key k) (window_in_force config k) now) = Inl e"
  shows "fst (CheckRateLimit config c now k) = Inl (CheckFailed e)"
  using assms
  by (cases "IncrementRateLimit c (counter_key k) (window_in_force config k) now")
    (simp add: CheckRateLimit_unfold)

lemma CheckRateLimit_unreachable:
  assumes "\<not> reachable c"
  shows "CheckRateLimit config c now k = (Inl (CheckFailed ConnectionError), c)"
  using assms by (simp add: CheckRateLimit_unfold IncrementRateLimit_def)

lemma ValidateAPIKey_unavailable:
  assumes "\<not> available db"
  shows "ValidateAPIKey Sum256 db apiKey = Inl (ErrValidate DriverError)"
  using assms by (simp add: ValidateAPIKey_def)

lemma sint_Sub:
  "sint (Sub t u) = max (- 9223372036854775808) (min 9223372036854775807 (t - u))"
proof -
  have w: "sint (word_of_int x :: 64 word) = x"
    if "- 9223372036854775808 \<le> x" "x \<le> 9223372036854775807" for x
  proof -
    have "sint (word_of_int x :: 64 word) = signed_take_bit 63 x"
      by (simp add: sint_sbintrunc')
    also have "\<dots> = x"
      using that by (intro signed_take_bit_int_eq_self) simp_all
    finally show ?thesis .
  qed
  have lo: "sint (word_of_int (- 9223372036854775808) :: 64 word) = - 9223372036854775808"
    and hi: "sint (word_of_int 9223372036854775807 :: 64 word) = 9223372036854775807"
    by simp_all
  consider "t - u < - 9223372036854775808" | "9223372036854775807 < t - u"
    | "- 9223372036854775808 \<le> t - u" "t - u \<le> 9223372036854775807"
    by linarith
  then show ?thesis
  proof cases
    case 1
    then show ?thesis unfolding Sub_def Let_def by (simp only: if_True lo; simp)
  next
    case 2
    then have "\<not> t - u < - 9223372036854775808" by simp
    with 2 show ?thesis unfolding Sub_def Let_def by (simp only: if_True if_False hi; simp)
  next
    case 3
    then have "\<not> t - u < - 9223372036854775808" "\<not> 9223372036854775807 < t - u" by simp_all
    then have "Sub t u = word_of_int (t - u)"
      unfolding Sub_def Let_def by (simp only: if_False)
    with 3 show ?thesis by (simp only: w; simp)
  qed
qed

lemma div_Second:
  fixes x :: int
  assumes "0 \<le> x"
  shows "0 \<le> x div 1000000000"
    and "x div 1000000000 * 1000000000 \<le> x"
    and "0 < x div 1000000000 \<longleftrightarrow> 1000000000 \<le> x"
proof -
  define q where "q = x div 1000000000"
  define r where "r = x mod 1000000000"
  have e: "x = 1000000000 * q + r"
    by (simp add: q_def r_def)
  have m: "0 \<le> r" "r < 1000000000"
    by (simp_all add: r_def)
  show "0 \<le> x div 1000000000" "x div 1000000000 * 1000000000 \<le> x"
    "0 < x div 1000000000 \<longleftrightarrow> 1000000000 \<le> x"
    unfolding q_def [symmetric] using e m assms by linarith+
qed

lemma quot_Second:
  shows "0 \<le> a \<Longrightarrow> quot a 1000000000 = a div 1000000000"
    and "a < 0 \<Longrightarrow> quot a 1000000000 = - ((- a) div 1000000000)"
  by (auto simp: quot_def sgn_if)

lemma quot_Second_nonneg: "0 \<le> quot a 1000000000 \<longleftrightarrow> - 1000000000 < a"
proof (cases "0 \<le> a")
  case True
  then show ?thesis using div_Second(1) [of a] by (simp add: quot_Second(1))
next
  case False
  then have "quot a 1000000000 = - ((- a) div 1000000000)"
    by (simp add: quot_Second(2))
  then show ?thesis
    using False div_Second(1,3) [of "- a"] by linarith
qed

lemma quot_Second_pos: "0 < quot a 1000000000 \<longleftrightarrow> 1000000000 \<le> a"
proof (cases "0 \<le> a")
  case True
  then show ?thesis using div_Second(3) [of a] by (simp add: quot_Second(1))
next
  case False
  then have "quot a 1000000000 = - ((- a) div 1000000000)"
    by (simp add: quot_Second(2))
  then show ?thesis
    using False div_Second(1) [of "- a"] by linarith
qed

lemma quot_Second_le: "quot a 1000000000 * 1000000000 \<le> max 0 a"
proof (cases "0 \<le> a")
  case True
  then show ?thesis using div_Second(2) [of a] by (simp add: quot_Second(1))
next
  case False
  then have "quot a 1000000000 \<le> 0"
    using quot_Second_pos [of a] by linarith
  then show ?thesis by simp
qed


lemma RateLimit_429_D:
  assumes "fst (RateLimit Sum256 db config c now now' req) = Abort 429 (RateLimitExceeded ra)"
  shows "\<exists>k r. ValidateAPIKey Sum256 db (presented_key req) = Inr k \<and>
           fst (CheckRateLimit config c now k) = Inr r \<and> \<not> Allowed r \<and>
           ra = int_of_float64 (Seconds (Until (ResetTime r) now'))"
  using assms
  by (auto simp: RateLimit_unfold split: if_splits sum.splits prod.splits)

lemma sint_Duration_le: "sint (w :: 64 word) \<le> 9223372036854775807"
  using sint_lt [of w] by simp

lemma pow2_pos: "0 < pow2 i"
  by (simp add: pow2_def)

lemma pow2_nonpos: "i \<le> 0 \<Longrightarrow> pow2 i = 1 / 2 ^ nat (- i)"
  by (auto simp: pow2_def)

lemma pow2_le:
  assumes "i \<le> - int k"
  shows "pow2 i \<le> 1 / 2 ^ k"
proof -
  have "k \<le> nat (- i)"
    using assms by simp
  then have "(2::rat) ^ k \<le> 2 ^ nat (- i)"
    by (rule power_increasing) simp
  then have "1 / (2::rat) ^ nat (- i) \<le> 1 / 2 ^ k"
    by (simp add: frac_le)
  moreover have "i \<le> 0"
    using assms by simp
  ultimately show ?thesis
    by (simp add: pow2_nonpos)
qed

lemma rne_floor: "\<lfloor>x\<rfloor> \<le> rne x" "rne x \<le> \<lfloor>x\<rfloor> + 1"
  by (simp_all add: rne_def Let_def)

lemma rne_ge:
  assumes "of_int k \<le> x"
  shows "k \<le> rne x"
proof -
  have "k \<le> \<lfloor>x\<rfloor>"
    using assms by (simp add: le_floor_iff)
  with rne_floor(1) [of x] show ?thesis by linarith
qed

lemma rne_le:
  assumes "x \<le> of_int k"
  shows "rne x \<le> k"
proof (cases "x = of_int k")
  case True
  then show ?thesis by (simp add: rne_def)
next
  case False
  with assms have "x < of_int k" by simp
  then have "\<lfloor>x\<rfloor> < k"
    by (simp add: floor_less_iff)
  with rne_floor(2) [of x] show ?thesis by linarith
qed

lemma rne_err: "\<bar>of_int (rne x) - x\<bar> \<le> 1 / 2"
proof -
  define r where "r = x - of_int \<lfloor>x\<rfloor>"
  have r: "0 \<le> r" "r < 1"
    unfolding r_def by linarith+
  have x: "x = of_int \<lfloor>x\<rfloor> + r"
    by (simp add: r_def)
  consider "r < 1 / 2" | "1 / 2 < r" | "r = 1 / 2" by linarith
  then show ?thesis
  proof cases
    case 1
    then have "rne x = \<lfloor>x\<rfloor>"
      by (simp add: rne_def Let_def r_def)
    with 1 r x show ?thesis by linarith
  next
    case 2
    then have "rne x = \<lfloor>x\<rfloor> + 1"
      by (simp add: rne_def Let_def r_def)
    then have "of_int (rne x) = of_int \<lfloor>x\<rfloor> + (1::rat)" by simp
    with 2 r x show ?thesis by linarith
  next
    case 3
    then have "rne x = \<lfloor>x\<rfloor> \<or> rne x = \<lfloor>x\<rfloor> + 1"
      by (simp add: rne_def Let_def r_def)
    then have "of_int (rne x) = (of_int \<lfloor>x\<rfloor> :: rat) \<or> of_int (rne x) = of_int \<lfloor>x\<rfloor> + (1::rat)"
      by auto
    with 3 x show ?thesis by linarith
  qed
qed

lemma rne_cases:
  assumes "x = of_int n + r" "0 \<le> r" "r < 1"
  shows "rne x = (if r < 1 / 2 then n else if 1 / 2 < r then n + 1
                  else if even n then n else n + 1)"
proof -
  have "of_int n \<le> x" "x < of_int n + 1"
    using assms by simp_all
  then have "\<lfloor>x\<rfloor> = n"
    by (rule floor_unique)
  moreover have "x - of_int n = r"
    using assms(1) by simp
  ultimately show ?thesis
    by (simp add: rne_def Let_def)
qed

lemma rne_minus: "rne (- x) = - rne x"
proof (cases "x = of_int \<lfloor>x\<rfloor>")
  case True
  then obtain k where k: "x = of_int k" ..
  have "rne (of_int k :: rat) = k" "rne (of_int (- k) :: rat) = - k"
    using rne_ge [of k "of_int k"] rne_le [of "of_int k" k]
      rne_ge [of "- k" "of_int (- k)"] rne_le [of "of_int (- k)" "- k"] by simp_all
  then show ?thesis by (simp add: k)
next
  case False
  define n where "n = \<lfloor>x\<rfloor>"
  define r where "r = x - of_int n"
  have r: "0 < r" "r < 1"
    using False unfolding r_def n_def by linarith+
  have x: "x = of_int n + r"
    by (simp add: r_def)
  have mx: "- x = of_int (- n - 1) + (1 - r)"
    by (simp add: r_def)
  have p: "rne x = (if r < 1 / 2 then n else if 1 / 2 < r then n + 1
                  else if even n then n else n + 1)"
    using x r by (intro rne_cases) simp_all
  have m: "rne (- x) = (if 1 - r < 1 / 2 then - n - 1 else if 1 / 2 < 1 - r then - n - 1 + 1
                  else if even (- n - 1) then - n - 1 else - n - 1 + 1)"
    using mx r by (intro rne_cases) simp_all
  consider "r < 1 / 2" | "1 / 2 < r" | "r = 1 / 2" by linarith
  then show ?thesis
  proof cases
    case 1
    then have "\<not> 1 - r < 1 / 2" "1 / 2 < 1 - r" by simp_all
    with 1 show ?thesis unfolding p m by simp
  next
    case 2
    then have "1 - r < 1 / 2" "\<not> r < 1 / 2" by simp_all
    with 2 show ?thesis unfolding p m by simp
  next
    case 3
    then show ?thesis unfolding p m by simp
  qed
qed

lemma float64_minus: "float64 (- x) = - float64 x"
  by (simp add: float64_def Let_def rne_minus)

lemma float64_scaled:
  assumes "x \<noteq> 0" "binade \<bar>x\<bar> \<le> 52"
  shows "float64 x = of_int (rne (x * 2 ^ nat (52 - binade \<bar>x\<bar>))) / 2 ^ nat (52 - binade \<bar>x\<bar>)"
proof -
  have "pow2 (binade \<bar>x\<bar> - 52) = 1 / 2 ^ nat (52 - binade \<bar>x\<bar>)"
    using assms(2) by (simp add: pow2_nonpos)
  then show ?thesis
    using assms(1) by (simp add: float64_def Let_def)
qed

lemma float64_grid_ge:
  assumes "0 < x" "binade x \<le> 52" "of_int m \<le> x"
  shows "of_int m \<le> float64 x"
proof -
  define j where "j = nat (52 - binade x)"
  have f: "float64 x = of_int (rne (x * 2 ^ j)) / 2 ^ j"
    using assms(1,2) float64_scaled [of x] by (simp add: j_def)
  have "of_int (m * 2 ^ j) \<le> x * 2 ^ j"
    using assms(3) by simp
  then have "m * 2 ^ j \<le> rne (x * 2 ^ j)"
    by (rule rne_ge)
  then have "(of_int (m * 2 ^ j) :: rat) \<le> of_int (rne (x * 2 ^ j))"
    by (simp only: of_int_le_iff)
  then have "of_int m * 2 ^ j \<le> (of_int (rne (x * 2 ^ j)) :: rat)"
    by simp
  then show ?thesis
    unfolding f by (simp add: pos_le_divide_eq)
qed

lemma float64_grid_le:
  assumes "0 < x" "binade x \<le> 52" "x \<le> of_int m"
  shows "float64 x \<le> of_int m"
proof -
  define j where "j = nat (52 - binade x)"
  have f: "float64 x = of_int (rne (x * 2 ^ j)) / 2 ^ j"
    using assms(1,2) float64_scaled [of x] by (simp add: j_def)
  have "x * 2 ^ j \<le> of_int (m * 2 ^ j)"
    using assms(3) by simp
  then have "rne (x * 2 ^ j) \<le> m * 2 ^ j"
    by (rule rne_le)
  then have "(of_int (rne (x * 2 ^ j)) :: rat) \<le> of_int (m * 2 ^ j)"
    by (simp only: of_int_le_iff)
  then have "(of_int (rne (x * 2 ^ j)) :: rat) \<le> of_int m * 2 ^ j"
    by simp
  then show ?thesis
    unfolding f by (simp add: pos_divide_le_eq)
qed

lemma float64_err:
  assumes "0 < x"
  shows "float64 x \<le> x + pow2 (binade x - 52) / 2"
proof -
  define u where "u = pow2 (binade x - 52)"
  have u: "0 < u"
    by (simp add: u_def pow2_pos)
  have f: "float64 x = of_int (rne (x / u)) * u"
    using assms by (simp add: float64_def Let_def u_def)
  have "of_int (rne (x / u)) \<le> x / u + 1 / 2"
    using rne_err [of "x / u"] by linarith
  then have "of_int (rne (x / u)) * u \<le> (x / u + 1 / 2) * u"
    using u by (simp only: mult_le_cancel_right_pos)
  also have "\<dots> = x + u / 2"
    using u by (simp add: field_simps)
  finally show ?thesis
    unfolding f u_def .
qed

lemma bitlen_pos: "0 < y \<Longrightarrow> 1 \<le> bitlen y"
  using bitlen_eq_zero_iff [of y] bitlen_nonneg [of y] by linarith

lemma binade_lt1:
  assumes "0 < x" "x < 1"
  shows "binade x \<le> - 1"
proof -
  have "1 < 1 / x"
    using assms by (simp add: less_divide_eq)
  then have "1 < \<lceil>1 / x\<rceil>"
    by (simp add: less_ceiling_iff)
  then have "1 \<le> bitlen (\<lceil>1 / x\<rceil> - 1)"
    by (intro bitlen_pos) simp
  then show ?thesis
    using assms by (simp add: binade_def)
qed

lemma binade_less_pow:
  assumes "1 \<le> x" "x < 2 ^ n"
  shows "binade x \<le> int n - 1"
proof -
  have "x < of_int (2 ^ n)"
    using assms(2) by simp
  then have "\<lfloor>x\<rfloor> < 2 ^ n"
    by (simp only: floor_less_iff)
  then have "bitlen \<lfloor>x\<rfloor> \<le> int n"
    by (simp add: bitlen_le_iff_power)
  then show ?thesis
    using assms(1) by (simp add: binade_def)
qed


lemma binade_le:
  assumes "0 < x" "x < 2 ^ n" "0 < n"
  shows "binade x \<le> int n - 1"
proof (cases "1 \<le> x")
  case True
  then show ?thesis using assms(2) by (rule binade_less_pow)
next
  case False
  then have "binade x \<le> - 1"
    using assms(1) by (intro binade_lt1) simp_all
  with assms(3) show ?thesis by simp
qed

lemma float64_of_int:
  assumes "\<bar>n\<bar> < 2 ^ 53"
  shows "float64 (of_int n) = of_int n"
proof -
  have pos: "float64 (of_int k) = of_int k" if k: "0 < k" "k < 2 ^ 53" for k :: int
  proof -
    have "(of_int k :: rat) < of_int (2 ^ 53)"
      using k(2) by (simp only: of_int_less_iff)
    then have x: "(0::rat) < of_int k" "(of_int k :: rat) < 2 ^ 53"
      using k(1) by simp_all
    then have b: "binade (of_int k) \<le> 52"
      using binade_le [of "of_int k" 53] by simp
    have "of_int k \<le> float64 (of_int k)" "float64 (of_int k) \<le> of_int k"
      using x(1) b by (simp_all add: float64_grid_ge float64_grid_le)
    then show ?thesis by simp
  qed
  consider "n = 0" | "0 < n" | "n < 0" by linarith
  then show ?thesis
  proof cases
    case 1
    then show ?thesis by (simp add: float64_def)
  next
    case 2
    with assms show ?thesis by (intro pos) simp_all
  next
    case 3
    with assms have "float64 (of_int (- n)) = of_int (- n)"
      by (intro pos) simp_all
    then show ?thesis
      using float64_minus [of "of_int n"] by simp
  qed
qed

lemma quot_minus: "quot (- a) b = - quot a b"
  by (simp add: quot_def sgn_minus)

lemma rem_minus: "rem (- a) b = - rem a b"
  by (simp add: rem_def quot_minus)

lemma seconds_of_ns_minus: "seconds_of_ns (- a) = - seconds_of_ns a"
proof -
  define A where "A = float64 (of_int (quot a 1000000000))"
  define Q where "Q = float64 (float64 (of_int (rem a 1000000000)) / 1000000000)"
  have "float64 (of_int (- quot a 1000000000)) = - A"
    using float64_minus [of "of_int (quot a 1000000000)"] by (simp add: A_def)
  moreover have "float64 (float64 (of_int (- rem a 1000000000)) / 1000000000) = - Q"
    using float64_minus [of "of_int (rem a 1000000000)"]
      float64_minus [of "float64 (of_int (rem a 1000000000)) / 1000000000"]
    by (simp add: Q_def)
  moreover have "float64 (- A + - Q) = - float64 (A + Q)"
    using float64_minus [of "A + Q"] by simp
  ultimately show ?thesis
    by (simp only: seconds_of_ns_def Let_def quot_minus rem_minus A_def [symmetric]
        Q_def [symmetric])
qed

lemma int_of_float64_minus: "int_of_float64 (- f) = - int_of_float64 f"
  by (auto simp: int_of_float64_def ceiling_def)

lemma rem_Second: "0 \<le> a \<Longrightarrow> rem a 1000000000 = a mod 1000000000"
  by (simp add: rem_def quot_Second(1) minus_mult_div_eq_mod)

lemma float64_fraction:
  assumes "0 \<le> n" "n < 1000000000"
  shows "0 \<le> float64 (of_int n / 1000000000)"
    and "float64 (of_int n / 1000000000) \<le> 1"
    and "float64 (of_int n / 1000000000) \<le> of_int n / 1000000000 + 1 / 2 ^ 54"
proof -
  define x :: rat where "x = of_int n / 1000000000"
  have c: "0 \<le> float64 x \<and> float64 x \<le> 1 \<and> float64 x \<le> x + 1 / 2 ^ 54"
  proof (cases "n = 0")
    case True
    then show ?thesis by (simp add: x_def float64_def)
  next
    case False
    with assms have x: "0 < x" "x < 1"
      by (simp_all add: x_def)
    then have b: "binade x \<le> - 1"
      by (rule binade_lt1)
    then have "pow2 (binade x - 52) \<le> 1 / 2 ^ 53"
      by (intro pow2_le) simp
    with float64_err [OF x(1)] have "float64 x \<le> x + 1 / 2 ^ 54"
      by simp
    moreover have "of_int 0 \<le> float64 x" "float64 x \<le> of_int 1"
      using x b by (intro float64_grid_ge float64_grid_le; simp)+
    ultimately show ?thesis by simp
  qed
  show "0 \<le> float64 (of_int n / 1000000000)"
    and "float64 (of_int n / 1000000000) \<le> 1"
    and "float64 (of_int n / 1000000000) \<le> of_int n / 1000000000 + 1 / 2 ^ 54"
    using c unfolding x_def by blast+
qed

lemma seconds_of_ns_pos:
  assumes "0 \<le> a" "a \<le> 9223372036854775808"
  shows "of_int (a div 1000000000) \<le> seconds_of_ns a"
    and "seconds_of_ns a \<le> of_int (a div 1000000000) + 1"
    and "a < 16777216000000000 \<Longrightarrow> seconds_of_ns a < of_int (a div 1000000000) + 1"
proof -
  define sec where "sec = a div 1000000000"
  define nsec where "nsec = a mod 1000000000"
  define Q where "Q = float64 (of_int nsec / 1000000000)"
  define S where "S = of_int sec + Q"
  have e: "a = 1000000000 * sec + nsec"
    by (simp add: sec_def nsec_def)
  have n: "0 \<le> nsec" "nsec < 1000000000"
    by (simp_all add: nsec_def)
  have sec: "0 \<le> sec" "sec \<le> 9223372036"
    using e n assms by linarith+
  have "float64 (of_int sec) = of_int sec" "float64 (of_int nsec) = of_int nsec"
    using sec n by (intro float64_of_int; simp)+
  then have F: "seconds_of_ns a = float64 S"
    using assms(1)
    by (simp add: seconds_of_ns_def Let_def quot_Second(1) rem_Second S_def Q_def
        flip: sec_def nsec_def)
  have Q: "0 \<le> Q" "Q \<le> 1" "Q \<le> of_int nsec / 1000000000 + 1 / 2 ^ 54"
    unfolding Q_def using n by (rule float64_fraction)+
  have S: "of_int sec \<le> S" "S \<le> of_int (sec + 1)"
    using Q by (simp_all add: S_def)
  have S0: "0 \<le> S"
    using S(1) sec(1) by simp
  have bounds: "of_int sec \<le> float64 S \<and> float64 S \<le> of_int (sec + 1)"
  proof (cases "S = 0")
    case True
    with S(1) sec(1) have "sec = 0" by simp
    with True show ?thesis by (simp add: float64_def)
  next
    case False
    with S0 have p: "0 < S" by simp
    have "sec + 1 < 2 ^ 53"
      using sec(2) by simp
    then have "(of_int (sec + 1) :: rat) < of_int (2 ^ 53)"
      by (simp only: of_int_less_iff)
    then have "of_int (sec + 1) < (2::rat) ^ 53"
      by simp
    with S(2) have "S < 2 ^ 53" by linarith
    with p have "binade S \<le> 52"
      using binade_le [of S 53] by simp
    with p S show ?thesis
      by (simp only: float64_grid_ge float64_grid_le simp_thms)
  qed
  show "of_int (a div 1000000000) \<le> seconds_of_ns a"
    and "seconds_of_ns a \<le> of_int (a div 1000000000) + 1"
    using bounds unfolding F sec_def by simp_all
  show "seconds_of_ns a < of_int (a div 1000000000) + 1" if "a < 16777216000000000"
  proof -
    have s24: "sec \<le> 16777215"
      using that e n by linarith
    have "nsec \<le> 999999999"
      using n(2) by simp
    then have "(of_int nsec :: rat) \<le> of_int 999999999"
      by (simp only: of_int_le_iff)
    then have "(of_int nsec :: rat) \<le> 999999999"
      by simp
    then have "(of_int nsec :: rat) / 1000000000 \<le> 999999999 / 1000000000"
      by (simp add: divide_le_cancel)
    with Q(3) have Sb: "S \<le> of_int sec + 999999999 / 1000000000 + 1 / 2 ^ 54"
      by (simp add: S_def)
    show ?thesis
    proof (cases "S = 0")
      case True
      with S(1) sec(1) have "sec = 0" by simp
      with True show ?thesis unfolding F sec_def [symmetric] by (simp add: float64_def)
    next
      case False
      with S0 have p: "0 < S" by simp
      have "(of_int sec :: rat) \<le> of_int 16777215"
        using s24 by (simp only: of_int_le_iff)
      then have "(of_int sec :: rat) \<le> 16777215"
        by simp
      with Sb have "S < 2 ^ 24" by simp
      with p have "binade S \<le> 23"
        using binade_le [of S 24] by simp
      then have "pow2 (binade S - 52) \<le> 1 / 2 ^ 29"
        by (intro pow2_le) simp
      with float64_err [OF p] have "float64 S \<le> S + 1 / 2 ^ 30"
        by simp
      with Sb have "float64 S < of_int sec + 1"
        by simp
      then show ?thesis unfolding F sec_def .
    qed
  qed
qed


lemma whole_seconds_pos:
  assumes "0 \<le> a" "a \<le> 9223372036854775808"
  shows "a div 1000000000 \<le> int_of_float64 (seconds_of_ns a)"
    and "int_of_float64 (seconds_of_ns a) \<le> a div 1000000000 + 1"
    and "a < 16777216000000000 \<Longrightarrow> int_of_float64 (seconds_of_ns a) = a div 1000000000"
proof -
  define f where "f = seconds_of_ns a"
  define q where "q = a div 1000000000"
  have q: "0 \<le> q"
    using assms(1) div_Second(1) [of a] by (simp add: q_def)
  have f: "of_int q \<le> f" "f \<le> of_int (q + 1)"
    using seconds_of_ns_pos(1,2) [OF assms] by (simp_all add: f_def q_def)
  have "(0::rat) \<le> of_int q"
    using q by (simp only: of_int_0_le_iff)
  with f(1) have "0 \<le> f"
    by linarith
  then have i: "int_of_float64 f = \<lfloor>f\<rfloor>"
    by (simp add: int_of_float64_def)
  have "q \<le> \<lfloor>f\<rfloor>"
    using f(1) by (simp add: le_floor_iff)
  moreover have "\<lfloor>f\<rfloor> \<le> q + 1"
    using floor_mono [OF f(2)] by (simp only: floor_of_int)
  ultimately show "a div 1000000000 \<le> int_of_float64 (seconds_of_ns a)"
    and "int_of_float64 (seconds_of_ns a) \<le> a div 1000000000 + 1"
    unfolding i f_def [symmetric] q_def [symmetric] i by simp_all
  show "int_of_float64 (seconds_of_ns a) = a div 1000000000" if "a < 16777216000000000"
  proof -
    have "f < of_int q + 1"
      using seconds_of_ns_pos(3) [OF assms that] by (simp add: f_def q_def)
    with f(1) have "\<lfloor>f\<rfloor> = q"
      by (intro floor_unique)
    then show ?thesis
      unfolding f_def [symmetric] q_def [symmetric] i .
  qed
qed

lemma whole_seconds_minus:
  "int_of_float64 (seconds_of_ns (- a)) = - int_of_float64 (seconds_of_ns a)"
  by (simp add: seconds_of_ns_minus int_of_float64_minus)

lemma whole_seconds_exact:
  assumes "- 16777216000000000 < a" "a < 16777216000000000"
  shows "int_of_float64 (seconds_of_ns a) = quot a 1000000000"
proof (cases "0 \<le> a")
  case True
  with assms(2) show ?thesis
    by (simp add: whole_seconds_pos(3) quot_Second(1))
next
  case False
  then have "int_of_float64 (seconds_of_ns (- a)) = (- a) div 1000000000"
    using assms(1) by (intro whole_seconds_pos(3)) simp_all
  then show ?thesis
    using False whole_seconds_minus [of a] by (simp add: quot_Second(2))
qed

lemma whole_seconds_neg:
  assumes "a < 0" "- 9223372036854775808 \<le> a"
  shows "int_of_float64 (seconds_of_ns a) \<le> quot a 1000000000"
proof -
  have "(- a) div 1000000000 \<le> int_of_float64 (seconds_of_ns (- a))"
    using assms by (intro whole_seconds_pos(1)) simp_all
  then show ?thesis
    using assms(1) whole_seconds_minus [of a] by (simp add: quot_Second(2))
qed

lemma whole_seconds_pos_iff:
  assumes "- 9223372036854775808 \<le> a" "a \<le> 9223372036854775807"
  shows "0 < int_of_float64 (seconds_of_ns a) \<longleftrightarrow> 1000000000 \<le> a"
proof -
  consider "a \<le> - 16777216000000000" | "- 16777216000000000 < a" "a < 16777216000000000"
    | "16777216000000000 \<le> a" by linarith
  then show ?thesis
  proof cases
    case 1
    then have "int_of_float64 (seconds_of_ns a) \<le> quot a 1000000000"
      using assms(1) by (intro whole_seconds_neg) simp_all
    moreover have "\<not> 0 < quot a 1000000000"
      using 1 by (simp add: quot_Second_pos)
    ultimately show ?thesis using 1 by linarith
  next
    case 2
    then show ?thesis by (simp add: whole_seconds_exact quot_Second_pos)
  next
    case 3
    then have "a div 1000000000 \<le> int_of_float64 (seconds_of_ns a)"
      using assms(2) by (intro whole_seconds_pos(1)) simp_all
    moreover have "0 < a div 1000000000"
      using 3 div_Second(3) [of a] by simp
    ultimately show ?thesis using 3 by linarith
  qed
qed

lemma whole_seconds_nonneg_iff:
  assumes "- 9223372036854775808 \<le> a" "a \<le> 9223372036854775807"
  shows "0 \<le> int_of_float64 (seconds_of_ns a) \<longleftrightarrow> - 1000000000 < a"
proof -
  consider "a \<le> - 16777216000000000" | "- 16777216000000000 < a" "a < 16777216000000000"
    | "16777216000000000 \<le> a" by linarith
  then show ?thesis
  proof cases
    case 1
    then have "int_of_float64 (seconds_of_ns a) \<le> quot a 1000000000"
      using assms(1) by (intro whole_seconds_neg) simp_all
    moreover have "\<not> 0 \<le> quot a 1000000000"
      using 1 by (simp add: quot_Second_nonneg)
    ultimately show ?thesis using 1 by linarith
  next
    case 2
    then show ?thesis by (simp add: whole_seconds_exact quot_Second_nonneg)
  next
    case 3
    then have "a div 1000000000 \<le> int_of_float64 (seconds_of_ns a)"
      using assms(2) by (intro whole_seconds_pos(1)) simp_all
    moreover have "0 \<le> a div 1000000000"
      using 3 div_Second(1) [of a] by simp
    ultimately show ?thesis using 3 by linarith
  qed
qed

lemma whole_seconds_le:
  assumes "- 9223372036854775808 \<le> a" "a \<le> 9223372036854775807"
  shows "int_of_float64 (seconds_of_ns a) * 1000000000 \<le> max 0 a + 1000000000"
proof (cases "0 \<le> a")
  case True
  then have "int_of_float64 (seconds_of_ns a) \<le> a div 1000000000 + 1"
    using assms(2) by (intro whole_seconds_pos(2)) simp_all
  then have "int_of_float64 (seconds_of_ns a) * 1000000000 \<le> (a div 1000000000 + 1) * 1000000000"
    by simp
  with div_Second(2) [OF True] True show ?thesis by simp
next
  case False
  then have "\<not> 0 < int_of_float64 (seconds_of_ns a)"
    using whole_seconds_pos_iff [OF assms] by simp
  then have "int_of_float64 (seconds_of_ns a) * 1000000000 \<le> 0"
    by simp
  with False show ?thesis by simp
qed

lemma retry_after_bounds:
  fixes W :: int
  assumes W: "0 < W" "W \<le> 9223372036854775807" and e: "now \<le> now'"
    and ra: "ra = int_of_float64 (Seconds (Until (now + W) now'))"
  shows "W < 16777216000000000 \<and> now' - now < W + 16777216000000000 \<longrightarrow>
           ra = quot (W - (now' - now)) 1000000000 \<and> ra * 1000000000 \<le> W"
    and "ra * 1000000000 \<le> W + 1000000000"
    and "0 \<le> ra \<longleftrightarrow> now' - now < W + 1000000000"
    and "0 < ra \<longleftrightarrow> now' - now + 1000000000 \<le> W"
proof -
  define d where "d = W - (now' - now)"
  define s where "s = max (- 9223372036854775808) d"
  have "now + W - now' = d"
    by (simp add: d_def)
  moreover have dW: "d \<le> W"
    using e by (simp add: d_def)
  ultimately have "sint (Until (now + W) now') = s"
    using W by (simp add: Until_def sint_Sub s_def)
  then have r: "ra = int_of_float64 (seconds_of_ns s)"
    by (simp add: ra Seconds_def)
  have s: "- 9223372036854775808 \<le> s" "s \<le> 9223372036854775807" "s \<le> W"
    using W dW by (simp_all add: s_def)
  show "W < 16777216000000000 \<and> now' - now < W + 16777216000000000 \<longrightarrow>
           ra = quot (W - (now' - now)) 1000000000 \<and> ra * 1000000000 \<le> W"
  proof
    assume a: "W < 16777216000000000 \<and> now' - now < W + 16777216000000000"
    then have sd: "s = d" and b: "- 16777216000000000 < d" "d < 16777216000000000"
      using dW by (simp_all add: s_def d_def)
    then have q: "ra = quot d 1000000000"
      unfolding r sd by (intro whole_seconds_exact)
    have "quot d 1000000000 * 1000000000 \<le> max 0 d"
      by (rule quot_Second_le)
    with dW W(1) have "ra * 1000000000 \<le> W"
      unfolding q by linarith
    with q show "ra = quot (W - (now' - now)) 1000000000 \<and> ra * 1000000000 \<le> W"
      by (simp add: d_def)
  qed
  have "max 0 s \<le> W"
    using s(3) W(1) by simp
  with whole_seconds_le [OF s(1,2)] show "ra * 1000000000 \<le> W + 1000000000"
    unfolding r by linarith
  have "- 1000000000 < s \<longleftrightarrow> - 1000000000 < d"
    unfolding s_def by linarith
  then show "0 \<le> ra \<longleftrightarrow> now' - now < W + 1000000000"
    unfolding r whole_seconds_nonneg_iff [OF s(1,2)] d_def by linarith
  have "1000000000 \<le> s \<longleftrightarrow> 1000000000 \<le> d"
    unfolding s_def by linarith
  then show "0 < ra \<longleftrightarrow> now' - now + 1000000000 \<le> W"
    unfolding r whole_seconds_pos_iff [OF s(1,2)] d_def by linarith
qed

section \<open>The boundary of the two checks\<close>

text \<open>
  C1. Whatever count the counter store returns, \<open>CheckRateLimit\<close> reports
  \<open>Allowed\<close> exactly when that count, the one after the increment, is at most the limit
  in force, and \<open>GetRateLimitStatus\<close> reports \<open>Allowed\<close> exactly when the count it reads
  is strictly below the limit in force. At a count equal to the limit the first allows
  and the second does not.
\<close>

theorem CheckRateLimit_le_GetRateLimitStatus_less:
  "(fst (IncrementRateLimit c (counter_key k) (window_in_force config k) now) = Inr n \<longrightarrow>
      (\<exists>r. fst (CheckRateLimit config c now k) = Inr r \<and> Limit r = limit_in_force config k \<and>
           Allowed r = (sint n \<le> sint (Limit r)))) \<and>
   (GetRateLimitCount d (counter_key k) now' = Inr n \<longrightarrow>
      (\<exists>r. GetRateLimitStatus config d now' k = Inr r \<and> Limit r = limit_in_force config k \<and>
           Allowed r = (sint n < sint (Limit r))))"
  by (auto simp: CheckRateLimit_unfold GetRateLimitStatus_unfold word_sle_eq word_sless_alt
      split: prod.splits sum.splits)

text \<open>
  At the boundary: a key of limit 5 whose counter goes from 4 to 5 is allowed by the
  consuming check; the status check that reads 5 does not allow.
\<close>

theorem CheckRateLimit_le_GetRateLimitStatus_less_witness:
  "fst (IncrementRateLimit (store_with ''rate_limit:k5'' 4 None) (counter_key key5)
          (window_in_force cfg0 key5) 0) = Inr 5 \<and>
   GetRateLimitCount (store_with ''rate_limit:k5'' 5 None) (counter_key key5) 0 = Inr 5 \<and>
   (\<exists>r. fst (CheckRateLimit cfg0 (store_with ''rate_limit:k5'' 4 None) 0 key5) = Inr r \<and>
        Limit r = 5 \<and> Allowed r) \<and>
   (\<exists>r. GetRateLimitStatus cfg0 (store_with ''rate_limit:k5'' 5 None) 0 key5 = Inr r \<and>
        Limit r = 5 \<and> \<not> Allowed r)"
  using CheckRateLimit_le_GetRateLimitStatus_less [of "store_with ''rate_limit:k5'' 4 None" key5 cfg0 0 5
      "store_with ''rate_limit:k5'' 5 None" 0]
  by (auto simp: store_defs)


section \<open>Remaining\<close>

text \<open>
  C2. In the snapshot of both \<open>CheckRateLimit\<close> and \<open>GetRateLimitStatus\<close>, \<open>Remaining\<close>
  is never negative and is the larger of 0 and \<open>limit - currentCount\<close>, the 64-bit
  difference the code computes; wherever that difference is representable in 64 bits
  (every count from 0 up against a positive limit), it is the larger of 0 and the
  mathematical difference.
\<close>

theorem Remaining_never_negative:
  "(fst (IncrementRateLimit c (counter_key k) (window_in_force config k) now) = Inr n \<longrightarrow>
      (\<exists>r. fst (CheckRateLimit config c now k) = Inr r \<and>
           Limit r = limit_in_force config k \<and>
           0 \<le> sint (Remaining r) \<and>
           sint (Remaining r) = max 0 (sint (Limit r - n)) \<and>
           (- 9223372036854775808 \<le> sint (Limit r) - sint n \<and>
            sint (Limit r) - sint n \<le> 9223372036854775807 \<longrightarrow>
              sint (Remaining r) = max 0 (sint (Limit r) - sint n)))) \<and>
   (GetRateLimitCount d (counter_key k) now' = Inr n \<longrightarrow>
      (\<exists>r. GetRateLimitStatus config d now' k = Inr r \<and>
           Limit r = limit_in_force config k \<and>
           0 \<le> sint (Remaining r) \<and>
           sint (Remaining r) = max 0 (sint (Limit r - n)) \<and>
           (- 9223372036854775808 \<le> sint (Limit r) - sint n \<and>
            sint (Limit r) - sint n \<le> 9223372036854775807 \<longrightarrow>
              sint (Remaining r) = max 0 (sint (Limit r) - sint n))))"
  using CheckRateLimit_Inr [of c k config now n] GetRateLimitStatus_Inr [of d k now' n config]
    snapshot_Remaining [OF refl, of "n \<le>s limit_in_force config k" "limit_in_force config k" n
      "now + sint (window_in_force config k)"]
    snapshot_Remaining [OF refl, of "n <s limit_in_force config k" "limit_in_force config k" n
      "now' + sint (window_in_force config k)"]
  by blast

text \<open>A key of limit 5 at count 10: \<open>Remaining\<close> is 0 in both snapshots.\<close>

theorem Remaining_never_negative_witness:
  "fst (IncrementRateLimit (store_with ''rate_limit:k5'' 9 None) (counter_key key5)
          (window_in_force cfg0 key5) 0) = Inr 10 \<and>
   GetRateLimitCount (store_with ''rate_limit:k5'' 10 None) (counter_key key5) 0 = Inr 10 \<and>
   (\<exists>r. fst (CheckRateLimit cfg0 (store_with ''rate_limit:k5'' 9 None) 0 key5) = Inr r \<and>
        Limit r = 5 \<and> sint (Remaining r) = 0) \<and>
   (\<exists>r. GetRateLimitStatus cfg0 (store_with ''rate_limit:k5'' 10 None) 0 key5 = Inr r \<and>
        Limit r = 5 \<and> sint (Remaining r) = 0)"
  using Remaining_never_negative [of "store_with ''rate_limit:k5'' 9 None" key5 cfg0 0 10
      "store_with ''rate_limit:k5'' 10 None" 0]
  by (auto simp: store_defs)

section \<open>Paths the middleware lets through\<close>

text \<open>
  C3. The claim is that a request for a health or metrics path or for an administrative
  path goes to its handler with no key extracted, validated or counted. The middleware
  compares the path with \<open>/health\<close> and \<open>/metrics\<close> only. The request of
  \<open>TestRateLimit_SkipAdminEndpoints\<close>, \<open>GET /admin/test\<close> with no key, is aborted with
  401 "API key required"; the two health paths are let through with the store
  untouched, whatever else the request carries.
\<close>

theorem RateLimit_admin_path_not_skipped:
  "RateLimit Sum256 db config c now now'
       \<lparr>Path = ''/admin/test'', X_API_Key = [], Authorization = []\<rparr> =
     (Abort 401 APIKeyRequired, None, c) \<and>
   RateLimit Sum256 db config c now now' (req\<lparr>Path := ''/health''\<rparr>) = (Next None, None, c) \<and>
   RateLimit Sum256 db config c now now' (req\<lparr>Path := ''/metrics''\<rparr>) = (Next None, None, c)"
  by (simp add: RateLimit_def)

section \<open>The expiry of a counter\<close>

text \<open>
  C4. The claim is that the expiry is armed only when the key had no value, so that an
  increment of an existing key does not move it. The pipeline sends \<open>EXPIRE\<close> with
  every increment. A counter at 1 that expires at second 60 is incremented at second 30
  with a window of 60 seconds: the count becomes 2 and the expiry moves to second 90.
  At second 61, after the first window has ended, the next increment finds the counter
  still there and returns 3.
\<close>

theorem IncrementRateLimit_rearms_expiry:
  "IncrementRateLimit (store_with ''rate_limit:k5'' 1 (Some 60000000000)) ''rate_limit:k5''
       60000000000 30000000000 =
     (Inr 2, store_with ''rate_limit:k5'' 2 (Some 90000000000)) \<and>
   fst (IncrementRateLimit (store_with ''rate_limit:k5'' 2 (Some 90000000000)) ''rate_limit:k5''
       60000000000 61000000000) = Inr 3"
  by (simp add: IncrementRateLimit_def INCR_def EXPIRE_def live_def formatSec_def quot_def
      store_with_def)

section \<open>Failing closed\<close>

text \<open>
  C5, as the claim states it, fails for the registry: with the database unreachable a
  request that carries a key is answered 401 "Invalid API key", the answer an unknown
  key gets, and not the 500 "Rate limit check failed" that an unreachable counter store
  gives.
\<close>

theorem registry_down_reported_as_invalid_key:
  "fst (RateLimit bytes_digest db_down cfg0 store_empty 0 0 (req_with ''/api/test'' ''k5'')) =
     Abort 401 InvalidAPIKey \<and>
   fst (RateLimit bytes_digest db_demo cfg0 store_empty 0 0 (req_with ''/api/test'' ''zz'')) =
     Abort 401 InvalidAPIKey \<and>
   fst (RateLimit bytes_digest db_demo cfg0 store_down 0 0 (req_with ''/api/test'' ''k5'')) =
     Abort 500 RateLimitCheckFailed"
  by (simp add: db_defs store_defs RateLimit_def CheckRateLimit_def)

text \<open>
  C5, amended. A failed increment makes \<open>CheckRateLimit\<close> return the error and no
  snapshot. For a request off the health paths that carries a key: when the database
  is unreachable the request is aborted with 401 "Invalid API key" and the counter
  store is left as it was; when the key resolves and the increment fails, the request
  is aborted with 500 "Rate limit check failed", no rate limit header is set, and the
  store is as that one attempt left it (the increment is not tried again); when the
  store is unreachable, it is left as it was. No case admits the request.
\<close>

theorem RateLimit_fails_closed:
  "(fst (IncrementRateLimit c (counter_key k) (window_in_force config k) now) = Inl e \<longrightarrow>
      fst (CheckRateLimit config c now k) = Inl (CheckFailed e)) \<and>
   (Path req \<noteq> ''/health'' \<and> Path req \<noteq> ''/metrics'' \<and> presented_key req \<noteq> [] \<longrightarrow>
      (\<not> available db \<longrightarrow>
         RateLimit Sum256 db config c now now' req = (Abort 401 InvalidAPIKey, None, c)) \<and>
      (ValidateAPIKey Sum256 db (presented_key req) = Inr k \<longrightarrow>
         (fst (IncrementRateLimit c (counter_key k) (window_in_force config k) now) = Inl e \<longrightarrow>
            fst (RateLimit Sum256 db config c now now' req) = Abort 500 RateLimitCheckFailed \<and>
            fst (snd (RateLimit Sum256 db config c now now' req)) = None \<and>
            snd (snd (RateLimit Sum256 db config c now now' req)) =
              snd (IncrementRateLimit c (counter_key k) (window_in_force config k) now)) \<and>
         (\<not> reachable c \<longrightarrow>
            RateLimit Sum256 db config c now now' req = (Abort 500 RateLimitCheckFailed, None, c))))"
proof (intro conjI impI)
  assume "fst (IncrementRateLimit c (counter_key k) (window_in_force config k) now) = Inl e"
  then show "fst (CheckRateLimit config c now k) = Inl (CheckFailed e)"
    by (rule CheckRateLimit_Inl)
next
  assume p: "Path req \<noteq> ''/health'' \<and> Path req \<noteq> ''/metrics'' \<and> presented_key req \<noteq> []"
    and "\<not> available db"
  then show "RateLimit Sum256 db config c now now' req = (Abort 401 InvalidAPIKey, None, c)"
    by (simp add: RateLimit_unfold ValidateAPIKey_unavailable)
next
  assume p: "Path req \<noteq> ''/health'' \<and> Path req \<noteq> ''/metrics'' \<and> presented_key req \<noteq> []"
    and v: "ValidateAPIKey Sum256 db (presented_key req) = Inr k"
    and "fst (IncrementRateLimit c (counter_key k) (window_in_force config k) now) = Inl e"
  then have "fst (CheckRateLimit config c now k) = Inl (CheckFailed e)"
    by (simp add: CheckRateLimit_Inl)
  then show "fst (RateLimit Sum256 db config c now now' req) = Abort 500 RateLimitCheckFailed"
    and "fst (snd (RateLimit Sum256 db config c now now' req)) = None"
    and "snd (snd (RateLimit Sum256 db config c now now' req)) =
           snd (IncrementRateLimit c (counter_key k) (window_in_force config k) now)"
    using p v CheckRateLimit_store [of config c now k]
    by (cases "CheckRateLimit config c now k"; simp add: RateLimit_unfold)+
next
  assume p: "Path req \<noteq> ''/health'' \<and> Path req \<noteq> ''/metrics'' \<and> presented_key req \<noteq> []"
    and v: "ValidateAPIKey Sum256 db (presented_key req) = Inr k"
    and "\<not> reachable c"
  then show "RateLimit Sum256 db config c now now' req = (Abort 500 RateLimitCheckFailed, None, c)"
    by (simp add: RateLimit_unfold CheckRateLimit_unreachable)
qed

text \<open>
  The key \<open>k5\<close> against an unreachable database, and against an unreachable store.
\<close>

theorem RateLimit_fails_closed_witness:
  "Path (req_with ''/api/test'' ''k5'') \<noteq> ''/health'' \<and>
   Path (req_with ''/api/test'' ''k5'') \<noteq> ''/metrics'' \<and>
   presented_key (req_with ''/api/test'' ''k5'') \<noteq> [] \<and>
   \<not> available db_down \<and> \<not> reachable store_down \<and>
   ValidateAPIKey bytes_digest db_demo (presented_key (req_with ''/api/test'' ''k5'')) = Inr key5 \<and>
   fst (IncrementRateLimit store_down (counter_key key5) (window_in_force cfg0 key5) 0) =
     Inl ConnectionError \<and>
   fst (CheckRateLimit cfg0 store_down 0 key5) = Inl (CheckFailed ConnectionError) \<and>
   RateLimit bytes_digest db_down cfg0 store_empty 0 0 (req_with ''/api/test'' ''k5'') =
     (Abort 401 InvalidAPIKey, None, store_empty) \<and>
   RateLimit bytes_digest db_demo cfg0 store_down 0 0 (req_with ''/api/test'' ''k5'') =
     (Abort 500 RateLimitCheckFailed, None, store_down)"
proof -
  have p: "Path (req_with ''/api/test'' ''k5'') \<noteq> ''/health'' \<and>
      Path (req_with ''/api/test'' ''k5'') \<noteq> ''/metrics'' \<and>
      presented_key (req_with ''/api/test'' ''k5'') \<noteq> []"
    by (simp add: req_with_def presented_key_def)
  have d: "\<not> available db_down" "\<not> reachable store_down"
    by (simp_all add: db_down_def store_down_def)
  have v: "ValidateAPIKey bytes_digest db_demo (presented_key (req_with ''/api/test'' ''k5'')) =
      Inr key5"
    by (simp add: db_defs presented_key_def)
  have i: "fst (IncrementRateLimit store_down (counter_key key5) (window_in_force cfg0 key5) 0) =
      Inl ConnectionError"
    by (simp add: IncrementRateLimit_def store_down_def)
  show ?thesis
    using p d v i
      RateLimit_fails_closed [of store_down key5 cfg0 0 ConnectionError
        "req_with ''/api/test'' ''k5''" db_demo bytes_digest 0]
      RateLimit_fails_closed [of store_empty key5 cfg0 0 ConnectionError
        "req_with ''/api/test'' ''k5''" db_down bytes_digest 0]
    by blast
qed

section \<open>Defaults\<close>

text \<open>
  C6. A stored limit that is not positive is replaced by the default limit of the
  configuration, and the snapshot's \<open>Limit\<close> is that default; a positive stored limit
  is used as it is. The same holds for the window, seen in the reset time and in the
  expiry handed to the counter store: a stored window that is not positive gives the
  default window, a positive one its own number of seconds. The window part is stated
  for the stored seconds whose nanosecond count fits in \<open>time.Duration\<close> (at most
  9223372036 in absolute value); the column \<open>rate_limit_window_seconds\<close> is a 32-bit
  \<open>INTEGER\<close>, well inside.
\<close>

theorem defaults_when_unset:
  "(fst (CheckRateLimit config c now k) = Inr r \<longrightarrow>
      (sint (RateLimitRequests k) \<le> 0 \<longrightarrow> Limit r = DefaultRequests config) \<and>
      (0 < sint (RateLimitRequests k) \<longrightarrow> Limit r = RateLimitRequests k) \<and>
      (- 9223372036 \<le> sint (RateLimitWindowSeconds k) \<and> sint (RateLimitWindowSeconds k) \<le> 0 \<longrightarrow>
         ResetTime r = now + sint (DefaultWindow config) \<and>
         snd (CheckRateLimit config c now k) =
           snd (IncrementRateLimit c (counter_key k) (DefaultWindow config) now)) \<and>
      (0 < sint (RateLimitWindowSeconds k) \<and> sint (RateLimitWindowSeconds k) \<le> 9223372036 \<longrightarrow>
         ResetTime r = now + sint (RateLimitWindowSeconds k) * 1000000000 \<and>
         snd (CheckRateLimit config c now k) =
           snd (IncrementRateLimit c (counter_key k) (RateLimitWindowSeconds k * Second) now))) \<and>
   (\<exists>s. GetRateLimitStatus config d now' k = Inr s \<and>
      (sint (RateLimitRequests k) \<le> 0 \<longrightarrow> Limit s = DefaultRequests config) \<and>
      (0 < sint (RateLimitRequests k) \<longrightarrow> Limit s = RateLimitRequests k) \<and>
      (- 9223372036 \<le> sint (RateLimitWindowSeconds k) \<and> sint (RateLimitWindowSeconds k) \<le> 0 \<longrightarrow>
         ResetTime s = now' + sint (DefaultWindow config)) \<and>
      (0 < sint (RateLimitWindowSeconds k) \<and> sint (RateLimitWindowSeconds k) \<le> 9223372036 \<longrightarrow>
         ResetTime s = now' + sint (RateLimitWindowSeconds k) * 1000000000))"
proof (intro conjI impI)
  obtain s where s: "GetRateLimitStatus config d now' k = Inr s"
    "Limit s = limit_in_force config k" "ResetTime s = now' + sint (window_in_force config k)"
    using GetRateLimitStatus_fields by blast
  show "\<exists>s. GetRateLimitStatus config d now' k = Inr s \<and>
      (sint (RateLimitRequests k) \<le> 0 \<longrightarrow> Limit s = DefaultRequests config) \<and>
      (0 < sint (RateLimitRequests k) \<longrightarrow> Limit s = RateLimitRequests k) \<and>
      (- 9223372036 \<le> sint (RateLimitWindowSeconds k) \<and> sint (RateLimitWindowSeconds k) \<le> 0 \<longrightarrow>
         ResetTime s = now' + sint (DefaultWindow config)) \<and>
      (0 < sint (RateLimitWindowSeconds k) \<and> sint (RateLimitWindowSeconds k) \<le> 9223372036 \<longrightarrow>
         ResetTime s = now' + sint (RateLimitWindowSeconds k) * 1000000000)"
    using s limit_in_force_cases [of k config] window_in_force_default [of k config]
      window_in_force_own(2) [of k config]
    by (intro exI [of _ s]) simp
qed (simp_all add: CheckRateLimit_fields CheckRateLimit_store limit_in_force_cases
       window_in_force_default window_in_force_own(1) sint_mul_Second)

text \<open>
  A key stored with limit 0 and window 0 under the default of 100 requests an hour: the
  first request is counted against 100, and the window is the hour.
\<close>

theorem defaults_when_unset_witness:
  "sint (RateLimitRequests key_unset) \<le> 0 \<and>
   - 9223372036 \<le> sint (RateLimitWindowSeconds key_unset) \<and>
   sint (RateLimitWindowSeconds key_unset) \<le> 0 \<and>
   fst (CheckRateLimit cfg0 store_empty 0 key_unset) =
     Inr \<lparr>Allowed = True, Remaining = 99, ResetTime = 3600000000000, Limit = 100\<rparr> \<and>
   (\<exists>s. GetRateLimitStatus cfg0 store_empty 0 key_unset = Inr s \<and> Limit s = 100 \<and>
        ResetTime s = 3600000000000)"
  using defaults_when_unset [of cfg0 store_empty 0 key_unset
      "\<lparr>Allowed = True, Remaining = 99, ResetTime = 3600000000000, Limit = 100\<rparr>"
      store_empty 0]
  by (auto simp: store_defs CheckRateLimit_def)

section \<open>The status check does not fail\<close>

text \<open>
  C7, as the claim states it, fails. The default limit comes from the environment
  unchecked. With a default of 0, a key that has no limit of its own and no traffic gets
  a snapshot that does not allow: \<open>Allowed\<close> false, \<open>Remaining\<close> 0, \<open>Limit\<close> 0.
\<close>

theorem status_with_zero_default_not_allowed:
  "GetRateLimitCount store_empty (counter_key key_unset) 0 = Inl Nil \<and>
   GetRateLimitStatus cfg_zero store_empty 0 key_unset =
     Inr \<lparr>Allowed = False, Remaining = 0, ResetTime = 3600000000000, Limit = 0\<rparr>"
  by (simp add: store_defs cfg_zero_def GetRateLimitStatus_def)

text \<open>
  C7, amended. \<open>GetRateLimitStatus\<close> always returns a snapshot, never an error. When
  the read of the counter fails, or the key is absent (\<open>redis.Nil\<close>), the snapshot is
  the one for a count of 0: \<open>Allowed\<close> says whether the limit in force is positive and
  \<open>Remaining\<close> is the larger of 0 and that limit. So with a positive limit in force
  (the key's own, or a positive default) \<open>Allowed\<close> is true and \<open>Remaining\<close> equals
  the limit.
\<close>

theorem GetRateLimitStatus_never_fails:
  "(\<exists>r. GetRateLimitStatus config c now k = Inr r) \<and>
   (GetRateLimitCount c (counter_key k) now = Inl e \<and>
    GetRateLimitCount c0 (counter_key k) now = Inr 0 \<longrightarrow>
      GetRateLimitStatus config c now k = GetRateLimitStatus config c0 now k) \<and>
   (GetRateLimitCount c (counter_key k) now = Inl e \<longrightarrow>
      (\<exists>r. GetRateLimitStatus config c now k = Inr r \<and> Limit r = limit_in_force config k \<and>
           Allowed r = (0 < sint (Limit r)) \<and>
           sint (Remaining r) = max 0 (sint (Limit r)) \<and>
           (0 < sint (Limit r) \<longrightarrow> Allowed r \<and> Remaining r = Limit r)))"
  by (auto simp: GetRateLimitStatus_unfold Let_def word_sless_alt)

text \<open>
  A key of limit 5 with no counter in the store, and the same key with the store
  unreachable.
\<close>

theorem GetRateLimitStatus_never_fails_witness:
  "GetRateLimitCount store_empty (counter_key key5) 0 = Inl Nil \<and>
   GetRateLimitCount store_down (counter_key key5) 0 = Inl ConnectionError \<and>
   GetRateLimitCount (store_with ''rate_limit:k5'' 0 None) (counter_key key5) 0 = Inr 0 \<and>
   0 < sint (limit_in_force cfg0 key5) \<and>
   GetRateLimitStatus cfg0 store_down 0 key5 =
     GetRateLimitStatus cfg0 (store_with ''rate_limit:k5'' 0 None) 0 key5 \<and>
   (\<exists>r. GetRateLimitStatus cfg0 store_empty 0 key5 = Inr r \<and> Allowed r \<and>
        Remaining r = 5 \<and> Limit r = 5)"
  using GetRateLimitStatus_never_fails [of cfg0 store_empty 0 key5 Nil
      "store_with ''rate_limit:k5'' 0 None"]
    GetRateLimitStatus_never_fails [of cfg0 store_down 0 key5 ConnectionError
      "store_with ''rate_limit:k5'' 0 None"]
  by (auto simp: store_defs)

section \<open>The retry-after value\<close>

text \<open>
  C8, as the claim states it, fails. With a window of one second and the clock a
  microsecond past the reset computation, \<open>retry_after\<close> is 0, not above 0. Nothing
  clamps the value: read three seconds later, it is \<open>-2\<close>. And it is not always the
  truncated number of seconds: with a window of a year, a nanosecond after the reset
  computation 31535999.999999999 seconds are left, the \<open>float64\<close> sum rounds to
  31536000, and that is the value sent, where truncation gives 31535999.
\<close>

theorem retry_after_zero_and_negative:
  "fst (RateLimit bytes_digest db_demo cfg0 (store_with ''rate_limit:k1'' 1 None) 0 1000
          (req_with ''/api/test'' ''k1'')) = Abort 429 (RateLimitExceeded 0) \<and>
   fst (RateLimit bytes_digest db_demo cfg0 (store_with ''rate_limit:k1'' 1 None) 0 3000000000
          (req_with ''/api/test'' ''k1'')) = Abort 429 (RateLimitExceeded (- 2)) \<and>
   fst (RateLimit bytes_digest db_year cfg0 (store_with ''rate_limit:ky'' 1 None) 0 1
          (req_with ''/api/test'' ''ky'')) = Abort 429 (RateLimitExceeded 31536000) \<and>
   quot (31536000000000000 - 1) 1000000000 = 31535999"
proof -
  have s: "int_of_float64 (Seconds 999999000) = 0"
    "int_of_float64 (Seconds (- 2000000000)) = - 2"
    "int_of_float64 (Seconds 31535999999999999) = 31536000"
    by code_simp+
  show ?thesis
    by (simp add: db_defs store_defs mw_defs db_year_def key1y_def s quot_def)
qed

text \<open>
  C8, amended. For a request rejected with 429, read at a clock not before the one the
  reset time was computed at, \<open>retry_after\<close> is \<open>int(d.Seconds())\<close> for the duration
  \<open>d\<close> from that clock to the reset time. With a positive window in force \<open>W\<close> and
  \<open>e\<close> the time between the two clock readings: for \<open>W\<close> below \<open>2 ^ 24\<close> seconds
  (194 days) and \<open>e\<close> less than \<open>2 ^ 24\<close> seconds past the window, \<open>retry_after\<close> is
  the quotient of \<open>W - e\<close> by a second truncated toward zero, and at most \<open>W\<close>; for
  every \<open>W\<close> it is at most a second more than \<open>W\<close>, it is not negative exactly when
  \<open>e\<close> is less than \<open>W\<close> plus a second, and it is positive exactly when a whole
  second of the window is left.
\<close>

theorem retry_after_bounded:
  "fst (RateLimit Sum256 db config c now now' req) = Abort 429 (RateLimitExceeded ra) \<and>
   now \<le> now' \<longrightarrow>
     (\<exists>k. ValidateAPIKey Sum256 db (presented_key req) = Inr k \<and>
          ra = int_of_float64 (Seconds (Until (now + sint (window_in_force config k)) now')) \<and>
          (0 < sint (window_in_force config k) \<longrightarrow>
             (sint (window_in_force config k) < 16777216000000000 \<and>
              now' - now < sint (window_in_force config k) + 16777216000000000 \<longrightarrow>
                ra = quot (sint (window_in_force config k) - (now' - now)) 1000000000 \<and>
                ra * 1000000000 \<le> sint (window_in_force config k)) \<and>
             ra * 1000000000 \<le> sint (window_in_force config k) + 1000000000 \<and>
             (0 \<le> ra \<longleftrightarrow> now' - now < sint (window_in_force config k) + 1000000000) \<and>
             (0 < ra \<longleftrightarrow> now' - now + 1000000000 \<le> sint (window_in_force config k))))"
proof
  assume a: "fst (RateLimit Sum256 db config c now now' req) = Abort 429 (RateLimitExceeded ra) \<and>
    now \<le> now'"
  then obtain k r where k: "ValidateAPIKey Sum256 db (presented_key req) = Inr k"
    and r: "fst (CheckRateLimit config c now k) = Inr r"
    and ra: "ra = int_of_float64 (Seconds (Until (ResetTime r) now'))"
    using RateLimit_429_D by blast
  define W where "W = sint (window_in_force config k)"
  have ra': "ra = int_of_float64 (Seconds (Until (now + W) now'))"
    using ra CheckRateLimit_fields(2) [OF r] by (simp add: W_def)
  have W: "W \<le> 9223372036854775807"
    unfolding W_def by (rule sint_Duration_le)
  have e: "now \<le> now'"
    using a by simp
  have "0 < W \<longrightarrow>
             (W < 16777216000000000 \<and> now' - now < W + 16777216000000000 \<longrightarrow>
                ra = quot (W - (now' - now)) 1000000000 \<and> ra * 1000000000 \<le> W) \<and>
             ra * 1000000000 \<le> W + 1000000000 \<and>
             (0 \<le> ra \<longleftrightarrow> now' - now < W + 1000000000) \<and>
             (0 < ra \<longleftrightarrow> now' - now + 1000000000 \<le> W)"
    using retry_after_bounds [OF _ W e ra'] by blast
  with k ra' show "\<exists>k. ValidateAPIKey Sum256 db (presented_key req) = Inr k \<and>
          ra = int_of_float64 (Seconds (Until (now + sint (window_in_force config k)) now')) \<and>
          (0 < sint (window_in_force config k) \<longrightarrow>
             (sint (window_in_force config k) < 16777216000000000 \<and>
              now' - now < sint (window_in_force config k) + 16777216000000000 \<longrightarrow>
                ra = quot (sint (window_in_force config k) - (now' - now)) 1000000000 \<and>
                ra * 1000000000 \<le> sint (window_in_force config k)) \<and>
             ra * 1000000000 \<le> sint (window_in_force config k) + 1000000000 \<and>
             (0 \<le> ra \<longleftrightarrow> now' - now < sint (window_in_force config k) + 1000000000) \<and>
             (0 < ra \<longleftrightarrow> now' - now + 1000000000 \<le> sint (window_in_force config k)))"
    unfolding W_def by blast
qed

text \<open>
  The sixth request of a key of 5 a minute, read a microsecond later: 59 seconds.
\<close>

theorem retry_after_bounded_witness:
  "fst (RateLimit bytes_digest db_demo cfg0 (store_with ''rate_limit:k5'' 5 None) 0 1000
          (req_with ''/api/test'' ''k5'')) = Abort 429 (RateLimitExceeded 59) \<and>
   (0::int) \<le> 1000 \<and>
   ValidateAPIKey bytes_digest db_demo (presented_key (req_with ''/api/test'' ''k5'')) = Inr key5 \<and>
   0 < sint (window_in_force cfg0 key5) \<and>
   sint (window_in_force cfg0 key5) < 16777216000000000 \<and>
   (1000::int) - 0 < sint (window_in_force cfg0 key5) + 16777216000000000 \<and>
   (59::int) = quot (sint (window_in_force cfg0 key5) - (1000 - 0)) 1000000000 \<and>
   (59::int) * 1000000000 \<le> sint (window_in_force cfg0 key5)"
proof -
  have s: "int_of_float64 (Seconds 59999999000) = 59"
    by code_simp
  have o: "fst (RateLimit bytes_digest db_demo cfg0 (store_with ''rate_limit:k5'' 5 None) 0 1000
          (req_with ''/api/test'' ''k5'')) = Abort 429 (RateLimitExceeded 59)"
    by (simp add: db_defs store_defs mw_defs s)
  have v: "ValidateAPIKey bytes_digest db_demo (presented_key (req_with ''/api/test'' ''k5'')) =
      Inr key5"
    by (simp add: db_defs presented_key_def)
  have w: "sint (window_in_force cfg0 key5) = 60000000000"
    by (simp add: store_defs)
  have t: "(0::int) \<le> 1000" by simp
  from retry_after_bounded [of bytes_digest db_demo cfg0 "store_with ''rate_limit:k5'' 5 None"
      0 1000 "req_with ''/api/test'' ''k5''" 59] o t v
  have "0 < sint (window_in_force cfg0 key5) \<longrightarrow>
      (sint (window_in_force cfg0 key5) < 16777216000000000 \<and>
       (1000::int) - 0 < sint (window_in_force cfg0 key5) + 16777216000000000 \<longrightarrow>
         (59::int) = quot (sint (window_in_force cfg0 key5) - (1000 - 0)) 1000000000 \<and>
         (59::int) * 1000000000 \<le> sint (window_in_force cfg0 key5))"
    by auto
  with o v w t show ?thesis by simp
qed

section \<open>Revoking a key\<close>

text \<open>
  C9, as the claim states it, fails. The update selects by digest alone, so revoking a
  token whose record is already inactive affects one row and succeeds, although no
  active record matches (validation of the same token fails).
\<close>

theorem DeactivateAPIKey_inactive_record_succeeds:
  "available db_demo \<and>
   ValidateAPIKey bytes_digest db_demo ''k9'' = Inl ErrInvalidAPIKey \<and>
   fst (DeactivateAPIKey bytes_digest db_demo 7 ''k9'') = Inr ()"
  by (simp add: db_defs)

text \<open>
  C9, amended. With the database reachable, \<open>DeactivateAPIKey\<close> returns "API key not
  found" if and only if no record, active or not, has the digest of the token, and
  succeeds if and only if some record has it. Afterwards every record with that digest
  is inactive, the records with another digest are as they were, no digest has changed,
  and the token no longer validates.
\<close>

theorem DeactivateAPIKey_not_found_iff_no_record:
  "available db \<longrightarrow>
     (fst (DeactivateAPIKey Sum256 db now apiKey) = Inl ErrNotFound \<longleftrightarrow>
        (\<forall>r \<in> set (api_keys db). KeyHash r \<noteq> hashAPIKey Sum256 apiKey)) \<and>
     (fst (DeactivateAPIKey Sum256 db now apiKey) = Inr () \<longleftrightarrow>
        (\<exists>r \<in> set (api_keys db). KeyHash r = hashAPIKey Sum256 apiKey)) \<and>
     (\<forall>r \<in> set (api_keys (snd (DeactivateAPIKey Sum256 db now apiKey))).
        KeyHash r = hashAPIKey Sum256 apiKey \<longrightarrow> \<not> IsActive r) \<and>
     map KeyHash (api_keys (snd (DeactivateAPIKey Sum256 db now apiKey))) =
       map KeyHash (api_keys db) \<and>
     filter (\<lambda>r. KeyHash r \<noteq> hashAPIKey Sum256 apiKey)
         (api_keys (snd (DeactivateAPIKey Sum256 db now apiKey))) =
       filter (\<lambda>r. KeyHash r \<noteq> hashAPIKey Sum256 apiKey) (api_keys db) \<and>
     ValidateAPIKey Sum256 (snd (DeactivateAPIKey Sum256 db now apiKey)) apiKey =
       Inl ErrInvalidAPIKey"
proof
  assume a: "available db"
  define h where "h = hashAPIKey Sum256 apiKey"
  define f where "f = (\<lambda>r::APIKey. if KeyHash r = h
                         then r\<lparr>IsActive := False, UpdatedAt := now\<rparr> else r)"
  define db' where "db' = snd (DeactivateAPIKey Sum256 db now apiKey)"
  note u = DeactivateAPIKey_unfold [OF a, of Sum256 now apiKey]
  have rows: "api_keys db' = map f (api_keys db)" and av: "available db'"
    using a by (simp_all add: u db'_def f_def h_def)
  have 1: "fst (DeactivateAPIKey Sum256 db now apiKey) = Inl ErrNotFound \<longleftrightarrow>
        (\<forall>r \<in> set (api_keys db). KeyHash r \<noteq> h)"
    by (simp add: u h_def)
  have 2: "fst (DeactivateAPIKey Sum256 db now apiKey) = Inr () \<longleftrightarrow>
        (\<exists>r \<in> set (api_keys db). KeyHash r = h)"
    by (simp add: u h_def)
  have 3: "\<forall>r \<in> set (api_keys db'). KeyHash r = h \<longrightarrow> \<not> IsActive r"
    unfolding rows f_def by (rule revoked_rows_inactive)
  have 4: "map KeyHash (api_keys db') = map KeyHash (api_keys db)"
    unfolding rows f_def by (rule revoked_rows_hashes)
  have 5: "filter (\<lambda>r. KeyHash r \<noteq> h) (api_keys db') = filter (\<lambda>r. KeyHash r \<noteq> h) (api_keys db)"
    unfolding rows f_def by (rule revoked_rows_others)
  have "find (\<lambda>r. KeyHash r = h \<and> IsActive r = True) (api_keys db') = None"
    unfolding find_None_iff using 3 by blast
  then have 6: "ValidateAPIKey Sum256 db' apiKey = Inl ErrInvalidAPIKey"
    using av by (simp add: ValidateAPIKey_def Let_def h_def)
  show "(fst (DeactivateAPIKey Sum256 db now apiKey) = Inl ErrNotFound \<longleftrightarrow>
        (\<forall>r \<in> set (api_keys db). KeyHash r \<noteq> hashAPIKey Sum256 apiKey)) \<and>
     (fst (DeactivateAPIKey Sum256 db now apiKey) = Inr () \<longleftrightarrow>
        (\<exists>r \<in> set (api_keys db). KeyHash r = hashAPIKey Sum256 apiKey)) \<and>
     (\<forall>r \<in> set (api_keys (snd (DeactivateAPIKey Sum256 db now apiKey))).
        KeyHash r = hashAPIKey Sum256 apiKey \<longrightarrow> \<not> IsActive r) \<and>
     map KeyHash (api_keys (snd (DeactivateAPIKey Sum256 db now apiKey))) =
       map KeyHash (api_keys db) \<and>
     filter (\<lambda>r. KeyHash r \<noteq> hashAPIKey Sum256 apiKey)
         (api_keys (snd (DeactivateAPIKey Sum256 db now apiKey))) =
       filter (\<lambda>r. KeyHash r \<noteq> hashAPIKey Sum256 apiKey) (api_keys db) \<and>
     ValidateAPIKey Sum256 (snd (DeactivateAPIKey Sum256 db now apiKey)) apiKey =
       Inl ErrInvalidAPIKey"
    using 1 2 3 4 5 6 unfolding h_def db'_def by blast
qed

text \<open>
  Revoking the active key \<open>k5\<close>, and a token no record has.
\<close>

theorem DeactivateAPIKey_not_found_iff_no_record_witness:
  "available db_demo \<and>
   ValidateAPIKey bytes_digest db_demo ''k5'' = Inr key5 \<and>
   fst (DeactivateAPIKey bytes_digest db_demo 7 ''k5'') = Inr () \<and>
   ValidateAPIKey bytes_digest (snd (DeactivateAPIKey bytes_digest db_demo 7 ''k5'')) ''k5'' =
     Inl ErrInvalidAPIKey \<and>
   fst (DeactivateAPIKey bytes_digest db_demo 7 ''zz'') = Inl ErrNotFound"
proof -
  have a: "available db_demo"
    by (simp add: db_demo_def)
  have k5: "\<exists>r \<in> set (api_keys db_demo). KeyHash r = hashAPIKey bytes_digest ''k5''"
    by (simp add: db_defs)
  have zz: "\<forall>r \<in> set (api_keys db_demo). KeyHash r \<noteq> hashAPIKey bytes_digest ''zz''"
    by (simp add: db_defs)
  have v: "ValidateAPIKey bytes_digest db_demo ''k5'' = Inr key5"
    by (simp add: db_defs)
  show ?thesis
    using a k5 zz v DeactivateAPIKey_not_found_iff_no_record [of db_demo bytes_digest 7 "''k5''"] DeactivateAPIKey_not_found_iff_no_record [of db_demo bytes_digest 7 "''zz''"]
    by blast
qed

section \<open>What validation returns\<close>

text \<open>
  C10. A record returned by \<open>ValidateAPIKey\<close> is a row of the table that is active and
  whose \<open>KeyHash\<close> is \<open>hashAPIKey\<close> of the presented key: the digest written as two
  lowercase hexadecimal digits a byte. When the database answers and every row with
  that hash is inactive, which covers the unknown key (no such row) and the inactive
  one alike, the result is the one error "invalid API key".
\<close>

theorem ValidateAPIKey_active_and_hashed:
  "(ValidateAPIKey Sum256 db apiKey = Inr r \<longrightarrow>
      IsActive r \<and> KeyHash r = hashAPIKey Sum256 apiKey \<and> r \<in> set (api_keys db)) \<and>
   (available db \<and>
    (\<forall>r \<in> set (api_keys db). KeyHash r = hashAPIKey Sum256 apiKey \<longrightarrow> \<not> IsActive r) \<longrightarrow>
      ValidateAPIKey Sum256 db apiKey = Inl ErrInvalidAPIKey) \<and>
   length (hashAPIKey Sum256 apiKey) = 2 * length (Sum256 apiKey) \<and>
   set (hashAPIKey Sum256 apiKey) \<subseteq> set ''0123456789abcdef''"
proof (intro conjI impI)
  assume "ValidateAPIKey Sum256 db apiKey = Inr r"
  then have f: "find (\<lambda>r. KeyHash r = hashAPIKey Sum256 apiKey \<and> IsActive r = True) (api_keys db) = Some r"
    by (simp add: ValidateAPIKey_def Let_def split: if_splits option.splits)
  then show "IsActive r" "KeyHash r = hashAPIKey Sum256 apiKey" "r \<in> set (api_keys db)"
    by (auto simp: find_Some_iff)
next
  assume "available db \<and>
    (\<forall>r \<in> set (api_keys db). KeyHash r = hashAPIKey Sum256 apiKey \<longrightarrow> \<not> IsActive r)"
  then show "ValidateAPIKey Sum256 db apiKey = Inl ErrInvalidAPIKey"
    by (auto simp: ValidateAPIKey_def Let_def find_None_iff split: option.splits)
next
  show "length (hashAPIKey Sum256 apiKey) = 2 * length (Sum256 apiKey)"
    by (rule hashAPIKey_length)
next
  show "set (hashAPIKey Sum256 apiKey) \<subseteq> set ''0123456789abcdef''"
    by (rule hashAPIKey_chars)
qed

text \<open>
  The active key \<open>k5\<close>, the revoked key \<open>k9\<close> and the unknown key \<open>zz\<close>.
\<close>

theorem ValidateAPIKey_active_and_hashed_witness:
  "ValidateAPIKey bytes_digest db_demo ''k5'' = Inr key5 \<and> IsActive key5 \<and>
   KeyHash key5 = hashAPIKey bytes_digest ''k5'' \<and> hashAPIKey bytes_digest ''k5'' = ''6b35'' \<and>
   available db_demo \<and>
   ValidateAPIKey bytes_digest db_demo ''k9'' = Inl ErrInvalidAPIKey \<and>
   ValidateAPIKey bytes_digest db_demo ''zz'' = Inl ErrInvalidAPIKey"
proof -
  have v: "ValidateAPIKey bytes_digest db_demo ''k5'' = Inr key5"
    by (simp add: db_defs)
  have h: "hashAPIKey bytes_digest ''k5'' = ''6b35''" 
    by (simp add: db_defs)
  have a: "available db_demo"
    by (simp add: db_demo_def)
  have n9: "\<forall>r \<in> set (api_keys db_demo). KeyHash r = hashAPIKey bytes_digest ''k9'' \<longrightarrow> \<not> IsActive r"
    by (simp add: db_defs)
  have nz: "\<forall>r \<in> set (api_keys db_demo). KeyHash r = hashAPIKey bytes_digest ''zz'' \<longrightarrow> \<not> IsActive r"
    by (simp add: db_defs)
  from ValidateAPIKey_active_and_hashed [of bytes_digest db_demo "''k5''" key5] v
  have "IsActive key5 \<and> KeyHash key5 = hashAPIKey bytes_digest ''k5''" by blast
  moreover from ValidateAPIKey_active_and_hashed [of bytes_digest db_demo "''k9''"] a n9
  have "ValidateAPIKey bytes_digest db_demo ''k9'' = Inl ErrInvalidAPIKey" by blast
  moreover from ValidateAPIKey_active_and_hashed [of bytes_digest db_demo "''zz''"] a nz
  have "ValidateAPIKey bytes_digest db_demo ''zz'' = Inl ErrInvalidAPIKey" by blast
  ultimately show ?thesis using v h a by blast
qed

end
